theory Spec2Isabelle
  imports Complex_Main "HOL-Library.Signed_Division"
begin

section \<open>Conventions of the embedding\<close>

text \<open>
  The desktop hit-judging engine (Go packages \<^verbatim>\<open>audio\<close>, \<^verbatim>\<open>song\<close> and \<^verbatim>\<open>game\<close>)
  and the scoring part of the web store (TypeScript) are embedded as HOL functions.

  \<^item> Go's \<^verbatim>\<open>float64\<close> and \<^verbatim>\<open>float32\<close> are modelled by \<^typ>\<open>real\<close>: all thresholds and
    the cents formula are read over the real numbers, without rounding.
  \<^item> Go's \<^verbatim>\<open>int\<close> is modelled by \<^typ>\<open>int\<close>; the counters of a session are bounded by
    the number of chart notes, far from 64-bit overflow. Go's \<^verbatim>\<open>/\<close> and \<^verbatim>\<open>%\<close> truncate
    towards zero (\<open>sdiv\<close>, \<open>smod\<close>). The conversion \<^verbatim>\<open>rune(x)\<close> keeps the low 32 bits.
  \<^item> A run-time panic (index out of range) is the value \<open>Inl IndexOutOfRange\<close>.
  \<^item> A pointer \<^verbatim>\<open>&Song.Notes[i]\<close> is the index \<open>i\<close> into the note list of the state.
  \<^item> Wall-clock stamps (\<^verbatim>\<open>time.Now()\<close>, the field \<^verbatim>\<open>StartTime\<close>) are left out of the
    records; where the code compares them, the outcome is an input of the model.
\<close>

datatype panic = IndexOutOfRange

definition rune :: "int \<Rightarrow> int" where
  "rune x = signed_take_bit 31 x"

text \<open>Go's \<^verbatim>\<open>string(r)\<close> for a rune: the UTF-8 encoding, and U+FFFD for an invalid code point.\<close>

definition string_of_rune :: "int \<Rightarrow> string" where
  "string_of_rune r =
    (if r < 0 \<or> 0x10FFFF < r \<or> (0xD800 \<le> r \<and> r \<le> 0xDFFF)
       then [CHR 0xEF, CHR 0xBF, CHR 0xBD]
     else if r < 0x80 then [char_of r]
     else if r < 0x800 then [char_of (0xC0 + r div 0x40), char_of (0x80 + r mod 0x40)]
     else if r < 0x10000
       then [char_of (0xE0 + r div 0x1000), char_of (0x80 + (r div 0x40) mod 0x40),
             char_of (0x80 + r mod 0x40)]
     else [char_of (0xF0 + r div 0x40000), char_of (0x80 + (r div 0x1000) mod 0x40),
           char_of (0x80 + (r div 0x40) mod 0x40), char_of (0x80 + r mod 0x40)])"

section \<open>Package audio: the pitch sample\<close>

record PitchResult =
  Frequency :: real
  Confidence :: real
  Note :: string
  Octave :: int
  Cents :: int
  RMS :: real

definition IsValid :: "PitchResult \<Rightarrow> bool" where
  "IsValid r \<longleftrightarrow> PitchResult.Note r \<noteq> [] \<and> Confidence r > 0.5"

section \<open>Package song: tuning, chart notes, game state\<close>

record StringTuning =
  Note :: string
  Octave :: int

definition noteMap :: "string \<rightharpoonup> int" where
  "noteMap = map_of
     [(''C'', 0), (''C#'', 1), (''Db'', 1),
      (''D'', 2), (''D#'', 3), (''Eb'', 3),
      (''E'', 4), (''Fb'', 4),
      (''F'', 5), (''F#'', 6), (''Gb'', 6),
      (''G'', 7), (''G#'', 8), (''Ab'', 8),
      (''A'', 9), (''A#'', 10), (''Bb'', 10),
      (''B'', 11), (''Cb'', 11)]"

text \<open>A missing key of a Go map reads as the zero value.\<close>

definition Semitone :: "StringTuning \<Rightarrow> int" where
  "Semitone s = (case noteMap (Note s) of Some v \<Rightarrow> v | None \<Rightarrow> 0)"

type_synonym Tuning = "StringTuning list"

definition TuningStandard :: Tuning where
  "TuningStandard =
     [\<lparr>Note = ''G'', Octave = 2\<rparr>, \<lparr>Note = ''D'', Octave = 2\<rparr>,
      \<lparr>Note = ''A'', Octave = 1\<rparr>, \<lparr>Note = ''E'', Octave = 1\<rparr>]"

datatype HitQuality = HitMiss | HitOK | HitGood | HitPerfect

fun HitQuality_String :: "HitQuality \<Rightarrow> string" where
  "HitQuality_String HitPerfect = ''Perfect!''"
| "HitQuality_String HitGood = ''Good''"
| "HitQuality_String HitOK = ''OK''"
| "HitQuality_String HitMiss = ''Miss''"

fun HitQuality_Score :: "HitQuality \<Rightarrow> int" where
  "HitQuality_Score HitPerfect = 100"
| "HitQuality_Score HitGood = 50"
| "HitQuality_Score HitOK = 25"
| "HitQuality_Score HitMiss = 0"

record TabNote =
  Time :: real
  Beat :: real
  String :: int
  Fret :: int
  Duration :: real
  Hit :: bool
  HitQuality :: HitQuality
  HitTime :: real

definition noteNames :: "string list" where
  "noteNames = [''C'', ''C#'', ''D'', ''D#'', ''E'', ''F'', ''F#'', ''G'', ''G#'', ''A'', ''A#'', ''B'']"

definition NoteWithTuning :: "TabNote \<Rightarrow> Tuning \<Rightarrow> panic + string" where
  "NoteWithTuning n tuning =
    (let notes = noteNames in
     if String n \<ge> int (length tuning) then Inr ''?''
     else if String n < 0 then Inl IndexOutOfRange
     else
       let openString = tuning ! nat (String n);
           baseNote = Semitone openString
       in if Fret n = 0 then Inr (Note openString)
          else
            let noteIndex = (baseNote + Fret n) smod 12
            in if noteIndex < 0 \<or> noteIndex \<ge> int (length notes) then Inl IndexOutOfRange
               else Inr (notes ! nat noteIndex))"

definition OctaveWithTuning :: "TabNote \<Rightarrow> Tuning \<Rightarrow> panic + int" where
  "OctaveWithTuning n tuning =
    (if String n \<ge> int (length tuning) then Inr 1
     else if String n < 0 then Inl IndexOutOfRange
     else
       let openString = tuning ! nat (String n);
           baseOctave = Octave openString;
           baseNote = Semitone openString;
           notePos = baseNote + Fret n
       in Inr (baseOctave + notePos sdiv 12))"

record Song =
  Title :: string
  Artist :: string
  BPM :: real
  TuningStr :: string
  Notes :: "TabNote list"
  Duration :: real
  Tuning :: "Tuning option"

text \<open>
  \<^verbatim>\<open>GetTuning\<close> falls back to \<^verbatim>\<open>ParseTuning(TuningStr)\<close> when the parsed tuning is nil.
  The string parser is not embedded: it is the parameter \<open>parse\<close>, and every result below
  holds for every such function.
\<close>

definition GetTuning :: "(string \<Rightarrow> Tuning) \<Rightarrow> Song \<Rightarrow> Tuning" where
  "GetTuning parse s =
    (case Tuning s of Some t \<Rightarrow> t
     | None \<Rightarrow> if TuningStr s \<noteq> [] then parse (TuningStr s) else TuningStandard)"

definition NoteAt :: "(string \<Rightarrow> Tuning) \<Rightarrow> Song \<Rightarrow> TabNote \<Rightarrow> panic + string" where
  "NoteAt parse s note = NoteWithTuning note (GetTuning parse s)"

definition OctaveAt :: "(string \<Rightarrow> Tuning) \<Rightarrow> Song \<Rightarrow> TabNote \<Rightarrow> panic + int" where
  "OctaveAt parse s note = OctaveWithTuning note (GetTuning parse s)"

definition CalculateDuration :: "Song \<Rightarrow> Song" where
  "CalculateDuration s =
    (if length (Notes s) = 0 then s\<lparr>Duration := 0\<rparr>
     else let lastNote = Notes s ! (length (Notes s) - 1)
          in s\<lparr>Duration := Time lastNote + TabNote.Duration lastNote + 2.0\<rparr>)"

record FloatingScore =
  Text :: string
  X :: real
  Y :: real
  Quality :: HitQuality

record GameState =
  Song :: Song
  CurrentTime :: real
  Score :: int
  Combo :: int
  MaxCombo :: int
  NotesHit :: int
  NotesMissed :: int
  TotalNotes :: int
  IsPlaying :: bool
  IsFinished :: bool
  FloatingText :: "FloatingScore list"

definition NewGameState :: "Song \<Rightarrow> GameState" where
  "NewGameState song =
    (let song = CalculateDuration song
     in \<lparr>Song = song, CurrentTime = 0, Score = 0, Combo = 0, MaxCombo = 0,
         NotesHit = 0, NotesMissed = 0, TotalNotes = int (length (Notes song)),
         IsPlaying = False, IsFinished = False, FloatingText = []\<rparr>)"

text \<open>
  \<^verbatim>\<open>GameState.Update\<close>: \<open>elapsed\<close> is the reading \<^verbatim>\<open>time.Since(StartTime).Seconds()\<close>, and
  \<open>young f\<close> says that the floating text \<open>f\<close> is less than one second old.
\<close>

definition GameState_Update :: "real \<Rightarrow> (FloatingScore \<Rightarrow> bool) \<Rightarrow> GameState \<Rightarrow> GameState" where
  "GameState_Update elapsed young g =
    (if \<not> IsPlaying g then g
     else
       let g = g\<lparr>CurrentTime := elapsed\<rparr>;
           g = (if CurrentTime g > Duration (Song g)
                then g\<lparr>IsPlaying := False, IsFinished := True\<rparr> else g)
       in g\<lparr>FloatingText := filter young (FloatingText g)\<rparr>)"

definition Start :: "GameState \<Rightarrow> GameState" where
  "Start g = g\<lparr>IsPlaying := True, IsFinished := False\<rparr>"

text \<open>\<^verbatim>\<open>RegisterHit(note, quality, x, y)\<close> with \<^verbatim>\<open>note = &g.Song.Notes[i]\<close>.\<close>

definition RegisterHit :: "GameState \<Rightarrow> nat \<Rightarrow> HitQuality \<Rightarrow> real \<Rightarrow> real \<Rightarrow> GameState" where
  "RegisterHit g i quality x y =
    (let note = (Notes (Song g) ! i)\<lparr>Hit := True, HitQuality := quality, HitTime := CurrentTime g\<rparr>;
         g = g\<lparr>Song := (Song g)\<lparr>Notes := (Notes (Song g))[i := note]\<rparr>\<rparr>;
         points = HitQuality_Score quality;
         (g, points) =
           (if quality \<noteq> HitMiss then
              let g = g\<lparr>Combo := Combo g + 1\<rparr>;
                  g = (if Combo g > MaxCombo g then g\<lparr>MaxCombo := Combo g\<rparr> else g);
                  multiplier = 1;
                  multiplier = (if Combo g \<ge> 10 then 2 else multiplier);
                  multiplier = (if Combo g \<ge> 25 then 3 else multiplier);
                  multiplier = (if Combo g \<ge> 50 then 4 else multiplier);
                  points = points * multiplier
              in (g\<lparr>NotesHit := NotesHit g + 1\<rparr>, points)
            else (g\<lparr>Combo := 0, NotesMissed := NotesMissed g + 1\<rparr>, points));
         g = g\<lparr>Score := Score g + points\<rparr>;
         text = HitQuality_String quality;
         text = (if points > 0 \<and> Combo g > 1
                 then HitQuality_String quality @ '' x'' @ string_of_rune (rune (48 + min (Combo g) 9))
                 else text)
     in g\<lparr>FloatingText := FloatingText g @ [\<lparr>Text = text, X = x, Y = y, Quality = quality\<rparr>]\<rparr>)"

section \<open>Package game: the hit detector\<close>

definition PerfectWindow :: real where "PerfectWindow = 0.050"
definition GoodWindow :: real where "GoodWindow = 0.100"
definition OKWindow :: real where "OKWindow = 0.150"
definition MissWindow :: real where "MissWindow = 0.300"

definition getHitQuality :: "real \<Rightarrow> HitQuality" where
  "getHitQuality absTimeDiff =
    (if absTimeDiff \<le> PerfectWindow then HitPerfect
     else if absTimeDiff \<le> GoodWindow then HitGood
     else if absTimeDiff \<le> OKWindow then HitOK
     else HitMiss)"

definition flatNames :: "(string \<times> string) list" where
  "flatNames =
     [(''Db'', ''C#''), (''Eb'', ''D#''), (''Fb'', ''E''), (''Gb'', ''F#''),
      (''Ab'', ''G#''), (''Bb'', ''A#''), (''Cb'', ''B'')]"

text \<open>
  \<^verbatim>\<open>buildNoteFrequencies\<close>: the two nested loops, as folds over the octaves 0 to 4. The
  flat aliases are written after all sharp names; their keys are pairwise different, so
  the order in which Go walks the map \<^verbatim>\<open>flatNames\<close> does not change the result.
\<close>

definition buildNoteFrequencies :: "string \<rightharpoonup> real" where
  "buildNoteFrequencies =
    (let notes =
       fold (\<lambda>octave notes.
          fold (\<lambda>(i, name) notes.
             let midiNote = (octave + 1) * 12 + int i;
                 freq = 440.0 * 2 powr (real_of_int (midiNote - 69) / 12.0);
                 key = name @ string_of_rune (rune (48 + octave))
             in notes(key \<mapsto> freq))
            (enumerate 0 noteNames) notes)
         [0, 1, 2, 3, 4] Map.empty
     in fold (\<lambda>(flat, sharp) notes.
          fold (\<lambda>octave notes.
             let sharpKey = sharp @ string_of_rune (rune (48 + octave));
                 flatKey = flat @ string_of_rune (rune (48 + octave))
             in case notes sharpKey of Some freq \<Rightarrow> notes(flatKey \<mapsto> freq) | None \<Rightarrow> notes)
            [0, 1, 2, 3, 4] notes)
         flatNames notes)"

text \<open>
  The methods of \<^verbatim>\<open>HitDetector\<close> take its two fields as the arguments \<open>nf\<close>
  (\<^verbatim>\<open>noteFrequencies\<close>) and \<open>g\<close> (\<^verbatim>\<open>state\<close>). \<^verbatim>\<open>math.Log2\<close> of a non-positive number is
  NaN or minus infinity, and then the comparison with 50 is false.
\<close>

definition notesMatch ::
  "(string \<Rightarrow> Tuning) \<Rightarrow> (string \<rightharpoonup> real) \<Rightarrow> GameState \<Rightarrow> PitchResult \<Rightarrow> TabNote \<Rightarrow> panic + bool" where
  "notesMatch parse nf g pitch note =
    (case NoteAt parse (Song g) note of
       Inl e \<Rightarrow> Inl e
     | Inr expectedNote \<Rightarrow>
        (case OctaveAt parse (Song g) note of
           Inl e \<Rightarrow> Inl e
         | Inr expectedOctave \<Rightarrow>
            let expectedKey = expectedNote @ string_of_rune (rune (48 + expectedOctave))
            in (case nf expectedKey of
                  None \<Rightarrow> Inr False
                | Some expectedFreq \<Rightarrow>
                    let centsDiff = 1200 * log 2 (Frequency pitch / expectedFreq)
                    in Inr (0 < Frequency pitch / expectedFreq \<and> \<bar>centsDiff\<bar> < 50))))"

fun CheckHit_loop ::
  "(string \<Rightarrow> Tuning) \<Rightarrow> (string \<rightharpoonup> real) \<Rightarrow> PitchResult \<Rightarrow> real \<Rightarrow> real \<Rightarrow> nat list
     \<Rightarrow> GameState \<Rightarrow> panic + GameState" where
  "CheckHit_loop parse nf pitch playLineX currentTime [] g = Inr g"
| "CheckHit_loop parse nf pitch playLineX currentTime (i # is) g =
    (let note = Notes (Song g) ! i in
     if Hit note then CheckHit_loop parse nf pitch playLineX currentTime is g
     else
       let timeDiff = Time note - currentTime;
           absTimeDiff = \<bar>timeDiff\<bar>
       in if timeDiff > MissWindow then CheckHit_loop parse nf pitch playLineX currentTime is g
          else if timeDiff < - MissWindow then
            CheckHit_loop parse nf pitch playLineX currentTime is
              (RegisterHit g i HitMiss playLineX (real_of_int (80 + String note * 40)))
          else
            (case notesMatch parse nf g pitch note of
               Inl e \<Rightarrow> Inl e
             | Inr m \<Rightarrow>
                 if m then
                   let quality = getHitQuality absTimeDiff
                   in Inr (RegisterHit g i quality playLineX (real_of_int (80 + String note * 40)))
                 else CheckHit_loop parse nf pitch playLineX currentTime is g))"

definition CheckHit ::
  "(string \<Rightarrow> Tuning) \<Rightarrow> (string \<rightharpoonup> real) \<Rightarrow> PitchResult \<Rightarrow> real \<Rightarrow> GameState
     \<Rightarrow> panic + GameState" where
  "CheckHit parse nf pitch playLineX g =
    (if \<not> IsValid pitch then Inr g
     else
       let currentTime = CurrentTime g
       in CheckHit_loop parse nf pitch playLineX currentTime [0..<length (Notes (Song g))] g)"

fun Update_loop :: "real \<Rightarrow> nat list \<Rightarrow> GameState \<Rightarrow> GameState" where
  "Update_loop currentTime [] g = g"
| "Update_loop currentTime (i # is) g =
    (let note = Notes (Song g) ! i in
     if Hit note then Update_loop currentTime is g
     else if currentTime - Time note > MissWindow then
       Update_loop currentTime is (RegisterHit g i HitMiss 0 (real_of_int (80 + String note * 40)))
     else Update_loop currentTime is g)"

definition HitDetector_Update :: "GameState \<Rightarrow> GameState" where
  "HitDetector_Update g =
    (let currentTime = CurrentTime g
     in Update_loop currentTime [0..<length (Notes (Song g))] g)"

section \<open>Sessions: sequences of invocations\<close>

text \<open>
  The frame driver calls \<^verbatim>\<open>GameState.Start\<close>, \<^verbatim>\<open>GameState.Update\<close>, \<^verbatim>\<open>CheckHit\<close> and
  \<^verbatim>\<open>HitDetector.Update\<close> on one shared state. A session is any finite sequence of such
  calls; a panic ends it.
\<close>

datatype Invocation =
    CallCheckHit PitchResult real
  | CallUpdate
  | CallGameStateUpdate real "FloatingScore \<Rightarrow> bool"
  | CallStart

fun invoke ::
  "(string \<Rightarrow> Tuning) \<Rightarrow> (string \<rightharpoonup> real) \<Rightarrow> Invocation \<Rightarrow> GameState \<Rightarrow> panic + GameState" where
  "invoke parse nf (CallCheckHit pitch playLineX) g = CheckHit parse nf pitch playLineX g"
| "invoke parse nf CallUpdate g = Inr (HitDetector_Update g)"
| "invoke parse nf (CallGameStateUpdate elapsed young) g = Inr (GameState_Update elapsed young g)"
| "invoke parse nf CallStart g = Inr (Start g)"

fun session ::
  "(string \<Rightarrow> Tuning) \<Rightarrow> (string \<rightharpoonup> real) \<Rightarrow> Invocation list \<Rightarrow> GameState \<Rightarrow> panic + GameState" where
  "session parse nf [] g = Inr g"
| "session parse nf (c # cs) g =
    (case invoke parse nf c g of Inl e \<Rightarrow> Inl e | Inr g' \<Rightarrow> session parse nf cs g')"

section \<open>The web store: scoring (TypeScript)\<close>

text \<open>
  The web implementation keeps the same quality tiers (\<^verbatim>\<open>HIT_QUALITY\<close>: MISS 0, OK 1,
  GOOD 2, PERFECT 3), here the constructors of \<^typ>\<open>HitQuality\<close>. Counters are whole
  numbers. The fields of its floating score carry the suffix \<open>_ts\<close>, and the stamp
  \<^verbatim>\<open>startTime\<close> is left out.
\<close>

fun hitQualityText :: "HitQuality \<Rightarrow> string" where
  "hitQualityText HitPerfect = ''Perfect!''"
| "hitQualityText HitGood = ''Good''"
| "hitQualityText HitOK = ''OK''"
| "hitQualityText HitMiss = ''Miss''"

fun hitQualityScore :: "HitQuality \<Rightarrow> int" where
  "hitQualityScore HitPerfect = 100"
| "hitQualityScore HitGood = 50"
| "hitQualityScore HitOK = 25"
| "hitQualityScore HitMiss = 0"

definition getComboMultiplier :: "int \<Rightarrow> int" where
  "getComboMultiplier c = (if c \<ge> 50 then 4 else if c \<ge> 25 then 3 else if c \<ge> 10 then 2 else 1)"

datatype GameStateType = MENU | PRE_START | PLAYING | RESULTS

record WebFloatingScore =
  text_ts :: string
  x_ts :: real
  y_ts :: real
  quality_ts :: HitQuality

record GameStore =
  state :: GameStateType
  currentTime :: real
  score :: int
  combo :: int
  maxCombo :: int
  notesHit :: int
  notesMissed :: int
  totalNotes :: int
  isPlaying :: bool
  isFinished :: bool
  floatingText :: "WebFloatingScore list"

text \<open>JavaScript's \<^verbatim>\<open>String(n)\<close> for a whole number: its decimal digits.\<close>

fun decimal :: "nat \<Rightarrow> string" where
  "decimal n = (if n < 10 then [char_of (48 + n)] else decimal (n div 10) @ [char_of (48 + n mod 10)])"

definition js_String :: "int \<Rightarrow> string" where
  "js_String k = (if k < 0 then ''-'' @ decimal (nat (- k)) else decimal (nat k))"

definition recordHit :: "GameStore \<Rightarrow> HitQuality \<Rightarrow> real \<Rightarrow> real \<Rightarrow> GameStore" where
  "recordHit s q px py =
    (if state s \<noteq> PLAYING then s
     else
       let s = s\<lparr>combo := combo s + 1\<rparr>;
           s = (if combo s > maxCombo s then s\<lparr>maxCombo := combo s\<rparr> else s);
           baseScore = hitQualityScore q;
           multiplier = getComboMultiplier (combo s);
           s = s\<lparr>score := score s + baseScore * multiplier\<rparr>;
           s = s\<lparr>notesHit := notesHit s + 1\<rparr>;
           txt = (if multiplier > 1 then hitQualityText q @ '' x'' @ js_String multiplier
                  else hitQualityText q);
           floatingScore = \<lparr>text_ts = txt, x_ts = px, y_ts = py, quality_ts = q\<rparr>
       in s\<lparr>floatingText := floatingText s @ [floatingScore]\<rparr>)"

definition recordMiss :: "GameStore \<Rightarrow> GameStore" where
  "recordMiss s =
    (if state s \<noteq> PLAYING then s
     else s\<lparr>combo := 0, notesMissed := notesMissed s + 1\<rparr>)"

text \<open>
  The states that the mutations of the score produce from a fresh state: \<^verbatim>\<open>RegisterHit\<close> on
  a chart note that is not yet hit, and the calls that move the clock.
\<close>

inductive mutated :: "Song \<Rightarrow> GameState \<Rightarrow> bool" for song where
  fresh: "mutated song (NewGameState song)"
| register: "mutated song g \<Longrightarrow> i < length (Notes (Song g)) \<Longrightarrow> \<not> Hit (Notes (Song g) ! i)
     \<Longrightarrow> mutated song (RegisterHit g i q px py)"
| clock: "mutated song g \<Longrightarrow> mutated song (GameState_Update elapsed young g)"
| start: "mutated song g \<Longrightarrow> mutated song (Start g)"

code_pred mutated .

text \<open>The number of chart notes that are marked hit.\<close>

definition hit_count :: "GameState \<Rightarrow> nat" where
  "hit_count g = length (filter Hit (Notes (Song g)))"

section \<open>The feedback text as the specification words it\<close>

text \<open>
  The specification asks for the quality label, followed by a suffix with the multiplier
  when the multiplier exceeds 1. This definition follows those words; the texts the two
  implementations build are compared with it below.
\<close>

definition spec_feedback_text :: "string \<Rightarrow> int \<Rightarrow> string" where
  "spec_feedback_text label multiplier =
     (if multiplier > 1 then label @ '' x'' @ js_String multiplier else label)"

section \<open>Example charts and states\<close>

text \<open>
  A chart note with the given time, string and fret, a song in standard tuning, a state
  of a running session with a given play time and combo, and a web store in the mode
  PLAYING. They serve as concrete inputs.
\<close>

definition example_note :: "real \<Rightarrow> int \<Rightarrow> int \<Rightarrow> TabNote" where
  "example_note t s f =
     \<lparr>Time = t, Beat = 0, String = s, Fret = f, Duration = 0.5,
      Hit = False, HitQuality = HitMiss, HitTime = 0\<rparr>"

definition example_song :: "TabNote list \<Rightarrow> Song" where
  "example_song ns =
     \<lparr>Title = ''Example'', Artist = ''Built-in'', BPM = 80, TuningStr = [],
      Notes = ns, Duration = 0, Tuning = Some TuningStandard\<rparr>"

definition example_state :: "TabNote list \<Rightarrow> real \<Rightarrow> int \<Rightarrow> GameState" where
  "example_state ns t c = (NewGameState (example_song ns))\<lparr>CurrentTime := t, Combo := c, MaxCombo := c\<rparr>"

definition example_store :: "int \<Rightarrow> GameStore" where
  "example_store c =
     \<lparr>state = PLAYING, currentTime = 0, score = 0, combo = c, maxCombo = c, notesHit = 0,
      notesMissed = 0, totalNotes = 1, isPlaying = True, isFinished = False, floatingText = []\<rparr>"

text \<open>The equal-tempered frequency of E1 (MIDI note 28), about 41.2 Hz.\<close>

definition frequency_E1 :: real where
  "frequency_E1 = 440 * 2 powr (- 41 / 12)"

definition example_pitch :: "real \<Rightarrow> real \<Rightarrow> PitchResult" where
  "example_pitch f c =
     \<lparr>Frequency = f, Confidence = c, PitchResult.Note = ''E'', PitchResult.Octave = 1,
      Cents = 0, RMS = 0.1\<rparr>"

section \<open>The timing classifier\<close>

text \<open>
  Claim C1. For every non-negative time offset \<open>t\<close>, \<^verbatim>\<open>getHitQuality\<close> returns Perfect when
  \<open>t \<le> 0.050\<close>, Good when \<open>0.050 < t \<le> 0.100\<close>, OK when \<open>0.100 < t \<le> 0.150\<close> and Miss
  when \<open>t > 0.150\<close>, with base points 100, 50, 25 and 0; the boundary values belong to the
  better tier, so the four intervals partition the non-negative offsets.
\<close>

theorem getHitQuality_partition:
  assumes "0 \<le> t"
  shows "(getHitQuality t = HitPerfect \<longleftrightarrow> t \<le> 0.050)
       \<and> (getHitQuality t = HitGood \<longleftrightarrow> 0.050 < t \<and> t \<le> 0.100)
       \<and> (getHitQuality t = HitOK \<longleftrightarrow> 0.100 < t \<and> t \<le> 0.150)
       \<and> (getHitQuality t = HitMiss \<longleftrightarrow> 0.150 < t)
       \<and> HitQuality_Score (getHitQuality t) =
           (if t \<le> 0.050 then 100 else if t \<le> 0.100 then 50 else if t \<le> 0.150 then 25 else 0)"
  by (simp add: getHitQuality_def PerfectWindow_def GoodWindow_def OKWindow_def)

theorem getHitQuality_partition_witness:
  "getHitQuality 0.050 = HitPerfect \<and> getHitQuality 0.100 = HitGood
   \<and> getHitQuality 0.150 = HitOK \<and> getHitQuality 0.2 = HitMiss
   \<and> HitQuality_Score (getHitQuality 0.050) = 100"
  using getHitQuality_partition [of "0.050"] getHitQuality_partition [of "0.100"]
    getHitQuality_partition [of "0.150"] getHitQuality_partition [of "0.2"]
  by simp

section \<open>Facts about the mutation of the score\<close>

lemma digit_rune: "0 \<le> d \<Longrightarrow> d \<le> 9 \<Longrightarrow> string_of_rune (rune (48 + d)) = [char_of (48 + d)]"
proof -
  assume a: "0 \<le> d" "d \<le> 9"
  have "signed_take_bit 31 (48 + d) = 48 + d"
    by (rule signed_take_bit_int_eq_self) (use a in auto)
  then show ?thesis using a by (simp add: rune_def string_of_rune_def)
qed

lemma RegisterHit_Notes:
  "Notes (Song (RegisterHit g i q px py)) =
     (Notes (Song g))[i := (Notes (Song g) ! i)\<lparr>Hit := True, HitQuality := q, HitTime := CurrentTime g\<rparr>]"
  by (simp add: RegisterHit_def Let_def split: prod.splits)

lemma RegisterHit_frame:
  "CurrentTime (RegisterHit g i q px py) = CurrentTime g"
  "TotalNotes (RegisterHit g i q px py) = TotalNotes g"
  "Tuning (Song (RegisterHit g i q px py)) = Tuning (Song g)"
  "TuningStr (Song (RegisterHit g i q px py)) = TuningStr (Song g)"
  "IsPlaying (RegisterHit g i q px py) = IsPlaying g"
  "Duration (Song (RegisterHit g i q px py)) = Duration (Song g)"
  by (simp_all add: RegisterHit_def Let_def split: prod.splits)

lemma RegisterHit_Combo:
  "Combo (RegisterHit g i q px py) = (if q = HitMiss then 0 else Combo g + 1)"
  by (simp add: RegisterHit_def Let_def split: prod.splits)

lemma RegisterHit_MaxCombo:
  "MaxCombo (RegisterHit g i q px py) = (if q = HitMiss then MaxCombo g else max (MaxCombo g) (Combo g + 1))"
  by (simp add: RegisterHit_def Let_def split: prod.splits)

lemma RegisterHit_NotesHit:
  "NotesHit (RegisterHit g i q px py) = (if q = HitMiss then NotesHit g else NotesHit g + 1)"
  by (simp add: RegisterHit_def Let_def split: prod.splits)

lemma RegisterHit_NotesMissed:
  "NotesMissed (RegisterHit g i q px py) = (if q = HitMiss then NotesMissed g + 1 else NotesMissed g)"
  by (simp add: RegisterHit_def Let_def split: prod.splits)

lemma RegisterHit_Score:
  "Score (RegisterHit g i q px py) =
     (if q = HitMiss then Score g else Score g + HitQuality_Score q * getComboMultiplier (Combo g + 1))"
  by (simp add: RegisterHit_def Let_def getComboMultiplier_def split: prod.splits)

lemma RegisterHit_FloatingText:
  "FloatingText (RegisterHit g i q px py) =
     FloatingText g @
       [\<lparr>Text = (if q \<noteq> HitMiss \<and> Combo g + 1 > 1
                  then HitQuality_String q @ '' x'' @ [char_of (48 + min (Combo g + 1) 9)]
                  else HitQuality_String q),
         X = px, Y = py, Quality = q\<rparr>]"
  apply (cases q)
  apply (simp_all add: RegisterHit_def Let_def digit_rune split: prod.splits)
  done

section \<open>The combo multiplier\<close>

lemma getComboMultiplier_range: "range getComboMultiplier = {1, 2, 3, 4}"
proof
  show "range getComboMultiplier \<subseteq> {1, 2, 3, 4}"
    by (auto simp: getComboMultiplier_def)
  have "getComboMultiplier 0 = 1" "getComboMultiplier 10 = 2" "getComboMultiplier 25 = 3"
    "getComboMultiplier 50 = 4"
    by (simp_all add: getComboMultiplier_def)
  then show "{1, 2, 3, 4} \<subseteq> range getComboMultiplier"
    by (metis empty_subsetI insert_subset rangeI)
qed

lemma recordHit_score:
  "state s = PLAYING \<Longrightarrow>
     score (recordHit s q px py) = score s + hitQualityScore q * getComboMultiplier (combo s + 1)"
  by (simp add: recordHit_def Let_def)

text \<open>
  Claim C6. The combo multiplier takes exactly the values 1, 2, 3 and 4, is monotonic
  non-decreasing, and has its breakpoints at 10, 25 and 50. On every hit that is not a
  Miss it is evaluated on the combo after the increment: the desktop \<^verbatim>\<open>RegisterHit\<close>,
  whose ladder is written inline, and the web \<^verbatim>\<open>recordHit\<close> both add the base points
  times \<^verbatim>\<open>getComboMultiplier\<close> of the new combo. In particular, a Perfect hit on a combo
  of 10 adds 200 points and raises the maximal combo to at least 11.
\<close>

theorem combo_multiplier_ladder:
  "range getComboMultiplier = {1, 2, 3, 4}
   \<and> (\<forall>a b. a \<le> b \<longrightarrow> getComboMultiplier a \<le> getComboMultiplier b)
   \<and> (getComboMultiplier c = 1 \<longleftrightarrow> c < 10)
   \<and> (getComboMultiplier c = 2 \<longleftrightarrow> 10 \<le> c \<and> c < 25)
   \<and> (getComboMultiplier c = 3 \<longleftrightarrow> 25 \<le> c \<and> c < 50)
   \<and> (getComboMultiplier c = 4 \<longleftrightarrow> 50 \<le> c)
   \<and> (q \<noteq> HitMiss \<longrightarrow>
        Combo (RegisterHit g i q px py) = Combo g + 1
        \<and> Score (RegisterHit g i q px py) =
            Score g + HitQuality_Score q * getComboMultiplier (Combo (RegisterHit g i q px py)))
   \<and> (Combo g = 10 \<longrightarrow>
        Score (RegisterHit g i HitPerfect px py) = Score g + 100 * 2
        \<and> MaxCombo (RegisterHit g i HitPerfect px py) \<ge> 11)
   \<and> (state s = PLAYING \<longrightarrow>
        combo (recordHit s q px py) = combo s + 1
        \<and> score (recordHit s q px py) =
            score s + hitQualityScore q * getComboMultiplier (combo (recordHit s q px py)))"
proof -
  have mono: "\<forall>a b. a \<le> b \<longrightarrow> getComboMultiplier a \<le> getComboMultiplier b"
    by (simp add: getComboMultiplier_def)
  have bp: "(getComboMultiplier c = 1 \<longleftrightarrow> c < 10)" "(getComboMultiplier c = 2 \<longleftrightarrow> 10 \<le> c \<and> c < 25)"
    "(getComboMultiplier c = 3 \<longleftrightarrow> 25 \<le> c \<and> c < 50)" "(getComboMultiplier c = 4 \<longleftrightarrow> 50 \<le> c)"
    by (simp_all add: getComboMultiplier_def)
  have go: "q \<noteq> HitMiss \<longrightarrow>
        Combo (RegisterHit g i q px py) = Combo g + 1
        \<and> Score (RegisterHit g i q px py) =
            Score g + HitQuality_Score q * getComboMultiplier (Combo (RegisterHit g i q px py))"
    by (simp add: RegisterHit_Combo RegisterHit_Score)
  have eleven: "Combo g = 10 \<longrightarrow>
        Score (RegisterHit g i HitPerfect px py) = Score g + 100 * 2
        \<and> MaxCombo (RegisterHit g i HitPerfect px py) \<ge> 11"
    by (simp add: RegisterHit_Score RegisterHit_MaxCombo getComboMultiplier_def)
  have web: "state s = PLAYING \<longrightarrow>
        combo (recordHit s q px py) = combo s + 1
        \<and> score (recordHit s q px py) =
            score s + hitQualityScore q * getComboMultiplier (combo (recordHit s q px py))"
    by (simp add: recordHit_def Let_def)
  from getComboMultiplier_range mono bp go eleven web show ?thesis by blast
qed

theorem combo_multiplier_ladder_witness:
  "(10::int) \<le> 11 \<and> getComboMultiplier 10 \<le> getComboMultiplier 11
   \<and> HitPerfect \<noteq> HitMiss
   \<and> Combo (example_state [example_note 2 3 0] 2 10) = 10
   \<and> Combo (RegisterHit (example_state [example_note 2 3 0] 2 10) 0 HitPerfect 0 0) = 11
   \<and> Score (RegisterHit (example_state [example_note 2 3 0] 2 10) 0 HitPerfect 0 0) = 200
   \<and> MaxCombo (RegisterHit (example_state [example_note 2 3 0] 2 10) 0 HitPerfect 0 0) \<ge> 11
   \<and> state (example_store 10) = PLAYING
   \<and> score (recordHit (example_store 10) HitPerfect 0 0) = 200"
  using combo_multiplier_ladder [of 11 HitPerfect "example_state [example_note 2 3 0] 2 10" 0 0 0
      "example_store 10"]
  by (simp add: example_state_def example_store_def NewGameState_def Let_def getComboMultiplier_def)

section \<open>Feedback texts\<close>

text \<open>
  Claim C7, as amended. The desktop \<^verbatim>\<open>RegisterHit\<close> appends exactly one floating text for
  every hit and every miss; its text is the quality label alone for a Miss or when the
  combo after the hit is at most 1, and otherwise the label followed by \<open>x\<close> and the
  digit of the combo count capped at 9 (not the multiplier). The web \<^verbatim>\<open>recordHit\<close>, in the
  mode PLAYING, appends one floating text that is the text of the specification: the
  label, and the suffix with the multiplier exactly when the multiplier exceeds 1. The
  web \<^verbatim>\<open>recordMiss\<close> appends none.
\<close>

theorem RegisterHit_feedback_text:
  "FloatingText (RegisterHit g i q px py) =
     FloatingText g @
       [\<lparr>Text = (if q \<noteq> HitMiss \<and> Combo (RegisterHit g i q px py) > 1
                 then HitQuality_String q @ '' x'' @ [char_of (48 + min (Combo (RegisterHit g i q px py)) 9)]
                 else HitQuality_String q),
         X = px, Y = py, Quality = q\<rparr>]
   \<and> (state s = PLAYING \<longrightarrow>
        floatingText (recordHit s q px py) =
          floatingText s @
            [\<lparr>text_ts = spec_feedback_text (hitQualityText q) (getComboMultiplier (combo (recordHit s q px py))),
              x_ts = px, y_ts = py, quality_ts = q\<rparr>])
   \<and> floatingText (recordMiss s) = floatingText s"
  by (simp add: RegisterHit_FloatingText RegisterHit_Combo recordHit_def recordMiss_def Let_def
      spec_feedback_text_def)

theorem RegisterHit_feedback_text_witness:
  "map Text (FloatingText (RegisterHit (example_state [example_note 2 3 0] 2 10) 0 HitPerfect 0 0))
     = [''Perfect! x9'']
   \<and> map Text (FloatingText (RegisterHit (example_state [example_note 2 3 0] 2 0) 0 HitPerfect 0 0))
     = [''Perfect!'']
   \<and> state (example_store 10) = PLAYING
   \<and> map text_ts (floatingText (recordHit (example_store 9) HitGood 0 0)) = [''Good x2'']"
  using RegisterHit_feedback_text [of "example_state [example_note 2 3 0] 2 10" 0 HitPerfect 0 0 "example_store 9"]
    RegisterHit_feedback_text [of "example_state [example_note 2 3 0] 2 0" 0 HitPerfect 0 0 "example_store 9"]
    RegisterHit_feedback_text [of "example_state [example_note 2 3 0] 2 0" 0 HitGood 0 0 "example_store 9"]
  by (simp add: RegisterHit_Combo example_state_def example_store_def NewGameState_def Let_def
      getComboMultiplier_def spec_feedback_text_def js_String_def char_of_def recordHit_def
      bit_Suc_0_iff)

text \<open>
  The claim as first worded fails on the desktop: on the second hit in a row the
  multiplier is 1, and the text carries a suffix all the same. It fails on the web as
  well: a recorded miss appends no floating text.
\<close>

theorem feedback_text_counterexample:
  "Combo (RegisterHit (example_state [example_note 2 3 0] 2 1) 0 HitPerfect 0 0) = 2
   \<and> getComboMultiplier 2 = 1
   \<and> map Text (FloatingText (RegisterHit (example_state [example_note 2 3 0] 2 1) 0 HitPerfect 0 0))
       = [''Perfect! x2'']
   \<and> map Text (FloatingText (RegisterHit (example_state [example_note 2 3 0] 2 1) 0 HitPerfect 0 0))
       \<noteq> [spec_feedback_text (HitQuality_String HitPerfect) (getComboMultiplier 2)]
   \<and> notesMissed (recordMiss (example_store 3)) = 1
   \<and> floatingText (recordMiss (example_store 3)) = []"
  by (simp add: RegisterHit_FloatingText RegisterHit_Combo example_state_def NewGameState_def Let_def
      getComboMultiplier_def spec_feedback_text_def char_of_def recordMiss_def example_store_def)

section \<open>The miss sweep\<close>

lemma RegisterHit_length:
  "length (Notes (Song (RegisterHit g i q px py))) = length (Notes (Song g))"
  by (simp add: RegisterHit_Notes)

lemma RegisterHit_other:
  "j \<noteq> i \<Longrightarrow> Notes (Song (RegisterHit g i q px py)) ! j = Notes (Song g) ! j"
  by (simp add: RegisterHit_Notes)

lemma RegisterHit_same:
  "i < length (Notes (Song g)) \<Longrightarrow>
     Notes (Song (RegisterHit g i q px py)) ! i =
       (Notes (Song g) ! i)\<lparr>Hit := True, HitQuality := q, HitTime := CurrentTime g\<rparr>"
  by (simp add: RegisterHit_Notes)

lemma Update_loop_frame:
  "length (Notes (Song (Update_loop t is g))) = length (Notes (Song g))
   \<and> CurrentTime (Update_loop t is g) = CurrentTime g
   \<and> TotalNotes (Update_loop t is g) = TotalNotes g"
  by (induction "is" arbitrary: g) (simp_all add: Let_def RegisterHit_length RegisterHit_frame)

lemma Update_loop_other:
  "j \<notin> set is \<Longrightarrow> Notes (Song (Update_loop t is g)) ! j = Notes (Song g) ! j"
  by (induction "is" arbitrary: g) (auto simp: Let_def RegisterHit_other)

lemma Update_loop_hit:
  "Hit (Notes (Song g) ! j) \<Longrightarrow> Notes (Song (Update_loop t is g)) ! j = Notes (Song g) ! j"
proof (induction "is" arbitrary: g)
  case Nil
  then show ?case by simp
next
  case (Cons i "is")
  show ?case
  proof (cases "i = j")
    case True
    with Cons show ?thesis by (simp add: Let_def)
  next
    case False
    with Cons show ?thesis by (simp add: Let_def RegisterHit_other)
  qed
qed

lemma Update_loop_miss:
  assumes "distinct is" "j \<in> set is" "j < length (Notes (Song g))"
    "\<not> Hit (Notes (Song g) ! j)" "t - Time (Notes (Song g) ! j) > MissWindow"
  shows "Notes (Song (Update_loop t is g)) ! j =
           (Notes (Song g) ! j)\<lparr>Hit := True, HitQuality := HitMiss, HitTime := CurrentTime g\<rparr>"
  using assms
proof (induction "is" arbitrary: g)
  case Nil
  then show ?case by simp
next
  case (Cons i "is")
  show ?case
  proof (cases "i = j")
    case True
    with Cons.prems have "j \<notin> set is" by simp
    with True Cons.prems show ?thesis
      by (simp add: Let_def Update_loop_other RegisterHit_same)
  next
    case False
    with Cons.prems have "j \<in> set is" "distinct is" by simp_all
    with False Cons.prems Cons.IH [of g]
      Cons.IH [of "RegisterHit g i HitMiss 0 (real_of_int (80 + String (Notes (Song g) ! i) * 40))"]
    show ?thesis
      by (simp add: Let_def RegisterHit_other RegisterHit_length RegisterHit_frame)
  qed
qed

lemma Update_loop_counters:
  assumes "distinct is"
  shows "NotesMissed (Update_loop t is g) =
           NotesMissed g + int (length (filter (\<lambda>i. \<not> Hit (Notes (Song g) ! i)
              \<and> t - Time (Notes (Song g) ! i) > MissWindow) is))
         \<and> NotesHit (Update_loop t is g) = NotesHit g
         \<and> Score (Update_loop t is g) = Score g"
  using assms
proof (induction "is" arbitrary: g)
  case Nil
  then show ?case by simp
next
  case (Cons i "is")
  let ?g1 = "RegisterHit g i HitMiss 0 (real_of_int (80 + String (Notes (Song g) ! i) * 40))"
  from Cons.prems have d: "distinct is" and ni: "i \<notin> set is" by simp_all
  have same: "filter (\<lambda>k. \<not> Hit (Notes (Song ?g1) ! k) \<and> t - Time (Notes (Song ?g1) ! k) > MissWindow) is
      = filter (\<lambda>k. \<not> Hit (Notes (Song g) ! k) \<and> t - Time (Notes (Song g) ! k) > MissWindow) is"
  proof (rule filter_cong [OF refl])
    fix k assume "k \<in> set is"
    with ni have "k \<noteq> i" by auto
    then show "(\<not> Hit (Notes (Song ?g1) ! k) \<and> t - Time (Notes (Song ?g1) ! k) > MissWindow)
        = (\<not> Hit (Notes (Song g) ! k) \<and> t - Time (Notes (Song g) ! k) > MissWindow)"
      by (simp add: RegisterHit_other)
  qed
  show ?case
    using Cons.IH [OF d, of g] Cons.IH [OF d, of ?g1] same
    by (simp add: Let_def RegisterHit_NotesMissed RegisterHit_NotesHit RegisterHit_Score)
qed

text \<open>
  Claim C4. One invocation of the miss sweep \<^verbatim>\<open>HitDetector.Update\<close> registers every note
  that is not yet hit and older than the miss window (\<open>currentTime - note.time > 0.300\<close>) as
  a Miss: the note is marked hit with quality Miss, and the counter of missed notes grows
  by the number of such notes. The sweep takes no pitch sample. Notes already marked hit
  are left as they are.
\<close>

theorem Update_registers_misses:
  "(\<forall>i < length (Notes (Song g)).
      (\<not> Hit (Notes (Song g) ! i) \<and> CurrentTime g - Time (Notes (Song g) ! i) > 0.300 \<longrightarrow>
         Notes (Song (HitDetector_Update g)) ! i =
           (Notes (Song g) ! i)\<lparr>Hit := True, HitQuality := HitMiss, HitTime := CurrentTime g\<rparr>)
      \<and> (Hit (Notes (Song g) ! i) \<longrightarrow>
           Notes (Song (HitDetector_Update g)) ! i = Notes (Song g) ! i))
   \<and> length (Notes (Song (HitDetector_Update g))) = length (Notes (Song g))
   \<and> NotesMissed (HitDetector_Update g) =
       NotesMissed g + int (length (filter (\<lambda>i. \<not> Hit (Notes (Song g) ! i)
          \<and> CurrentTime g - Time (Notes (Song g) ! i) > 0.300) [0..<length (Notes (Song g))]))"
proof -
  have w: "MissWindow = 0.300" by (simp add: MissWindow_def)
  have a: "\<forall>i < length (Notes (Song g)).
      (\<not> Hit (Notes (Song g) ! i) \<and> CurrentTime g - Time (Notes (Song g) ! i) > 0.300 \<longrightarrow>
         Notes (Song (HitDetector_Update g)) ! i =
           (Notes (Song g) ! i)\<lparr>Hit := True, HitQuality := HitMiss, HitTime := CurrentTime g\<rparr>)
      \<and> (Hit (Notes (Song g) ! i) \<longrightarrow>
           Notes (Song (HitDetector_Update g)) ! i = Notes (Song g) ! i)"
    unfolding HitDetector_Update_def Let_def
    using Update_loop_miss [of "[0..<length (Notes (Song g))]" _ g "CurrentTime g"]
    by (auto simp: Update_loop_hit w)
  have b: "length (Notes (Song (HitDetector_Update g))) = length (Notes (Song g))"
    by (simp add: HitDetector_Update_def Let_def Update_loop_frame)
  have c: "NotesMissed (HitDetector_Update g) =
       NotesMissed g + int (length (filter (\<lambda>i. \<not> Hit (Notes (Song g) ! i)
          \<and> CurrentTime g - Time (Notes (Song g) ! i) > 0.300) [0..<length (Notes (Song g))]))"
    unfolding HitDetector_Update_def Let_def
    using Update_loop_counters [of "[0..<length (Notes (Song g))]" "CurrentTime g" g]
    by (simp add: w)
  from a b c show ?thesis by blast
qed

theorem Update_registers_misses_witness:
  "\<not> Hit (Notes (Song (example_state [example_note 2 3 0] 2.35 3)) ! 0)
   \<and> CurrentTime (example_state [example_note 2 3 0] 2.35 3)
       - Time (Notes (Song (example_state [example_note 2 3 0] 2.35 3)) ! 0) > 0.300
   \<and> Hit (Notes (Song (HitDetector_Update (example_state [example_note 2 3 0] 2.35 3))) ! 0)
   \<and> HitQuality (Notes (Song (HitDetector_Update (example_state [example_note 2 3 0] 2.35 3))) ! 0) = HitMiss
   \<and> NotesMissed (HitDetector_Update (example_state [example_note 2 3 0] 2.35 3)) = 1
   \<and> Hit (Notes (Song (example_state [(example_note 2 3 0)\<lparr>Hit := True, HitQuality := HitGood\<rparr>] 2.35 3)) ! 0)
   \<and> HitQuality (Notes (Song (HitDetector_Update
        (example_state [(example_note 2 3 0)\<lparr>Hit := True, HitQuality := HitGood\<rparr>] 2.35 3))) ! 0) = HitGood"
  using Update_registers_misses [of "example_state [example_note 2 3 0] 2.35 3"]
    Update_registers_misses [of "example_state [(example_note 2 3 0)\<lparr>Hit := True, HitQuality := HitGood\<rparr>] 2.35 3"]
  by (simp add: example_state_def example_song_def example_note_def NewGameState_def
      CalculateDuration_def Let_def)

section \<open>The table of reference frequencies\<close>

lemma key_inj:
  assumes "0 \<le> a" "a \<le> 9" "0 \<le> b" "b \<le> 9"
  shows "(n @ string_of_rune (rune (48 + a)) = n' @ string_of_rune (rune (48 + b)))
           = (n = n' \<and> a = b)"
proof -
  have "(char_of (48 + a) = char_of (48 + b)) = (a = b)"
    using assms by (simp add: char_of_quasi_inj)
  with assms show ?thesis by (simp add: digit_rune)
qed

text \<open>Folds of steps over a table: a key no step touches, and a key some step sets.\<close>

lemma fold_untouched:
  "(\<forall>x\<in>set xs. \<forall>m. f x m k = m k) \<Longrightarrow> fold f xs m k = m k"
  by (induction xs arbitrary: m) simp_all

lemma fold_settled:
  assumes "\<exists>x\<in>set xs. \<forall>m. Q m \<longrightarrow> f x m k = Some v"
    and "\<forall>x\<in>set xs. \<forall>m. Q m \<longrightarrow> Q (f x m)"
    and "\<forall>x\<in>set xs. \<forall>m. Q m \<and> m k = Some v \<longrightarrow> f x m k = Some v"
    and "Q m"
  shows "fold f xs m k = Some v"
proof -
  have keep: "(\<forall>x\<in>set ys. \<forall>m. Q m \<longrightarrow> Q (f x m)) \<Longrightarrow>
      (\<forall>x\<in>set ys. \<forall>m. Q m \<and> m k = Some v \<longrightarrow> f x m k = Some v) \<Longrightarrow> Q m' \<Longrightarrow> m' k = Some v
      \<Longrightarrow> fold f ys m' k = Some v" for ys m'
    by (induction ys arbitrary: m') simp_all
  show ?thesis
    using assms
  proof (induction xs arbitrary: m)
    case Nil
    then show ?case by simp
  next
    case (Cons y ys)
    have Qy: "Q (f y m)" using Cons.prems(2,4) by simp
    show ?case
    proof (cases "\<exists>x\<in>set ys. \<forall>m. Q m \<longrightarrow> f x m k = Some v")
      case True
      from Cons.IH [OF True _ _ Qy] Cons.prems(2,3) show ?thesis by simp
    next
      case False
      with Cons.prems(1) have "\<forall>m. Q m \<longrightarrow> f y m k = Some v" by auto
      with Cons.prems(4) have here: "f y m k = Some v" by simp
      from Cons.prems(2) have q: "\<forall>x\<in>set ys. \<forall>m. Q m \<longrightarrow> Q (f x m)" by simp
      from Cons.prems(3) have "\<forall>x\<in>set ys. \<forall>m. Q m \<and> m k = Some v \<longrightarrow> f x m k = Some v" by simp
      from keep [of ys "f y m", OF q this Qy here] show ?thesis by simp
    qed
  qed
qed


lemma fold_sets_key:
  assumes "\<exists>x\<in>set xs. \<forall>m. f x m k = Some v"
    and "\<forall>x\<in>set xs. \<forall>m. f x m k = Some v \<or> f x m k = m k"
  shows "fold f xs m k = Some v"
proof (rule fold_settled [where Q = "\<lambda>m. True"])
  show "\<exists>x\<in>set xs. \<forall>m. True \<longrightarrow> f x m k = Some v" using assms(1) by simp
  show "\<forall>x\<in>set xs. \<forall>m. True \<and> m k = Some v \<longrightarrow> f x m k = Some v" using assms(2) by metis
qed simp_all

lemma noteNames_facts: "length noteNames = 12" "distinct noteNames"
  by (simp_all add: noteNames_def)

lemma enumerate_noteNames:
  "(j, name) \<in> set (enumerate 0 noteNames) \<longleftrightarrow> j < 12 \<and> name = noteNames ! j"
  by (auto simp: in_set_enumerate_eq noteNames_facts)

lemma octave_range: "b \<in> set [0, 1, 2, 3, 4] \<longleftrightarrow> 0 \<le> b \<and> b \<le> (4::int)"
  by (simp; presburger)

lemma sharp_lookup:
  assumes i: "i < 12" and o: "0 \<le> octave" "octave \<le> 4"
  shows "fold (\<lambda>octave notes.
          fold (\<lambda>(i, name) notes.
             notes(name @ string_of_rune (rune (48 + octave)) \<mapsto>
               440.0 * 2 powr (real_of_int ((octave + 1) * 12 + int i - 69) / 12.0)))
            (enumerate 0 noteNames) notes)
         [0, 1, 2, 3, 4] Map.empty (noteNames ! i @ string_of_rune (rune (48 + octave)))
       = Some (440 * 2 powr (real_of_int ((octave + 1) * 12 + int i - 69) / 12))"
    (is "fold ?h ?os Map.empty ?k = Some ?v")
proof -
  let ?g = "\<lambda>octave. \<lambda>(i, name) notes. notes(name @ string_of_rune (rune (48 + octave)) \<mapsto>
               440.0 * 2 powr (real_of_int ((octave + 1) * 12 + int i - 69) / 12.0))"
  have step: "?g b (j, name) m ?k = (if name = noteNames ! i \<and> b = octave then
        Some (440 * 2 powr (real_of_int ((b + 1) * 12 + int j - 69) / 12)) else m ?k)"
    if "b \<in> set ?os" for b j name m
    using that o unfolding octave_range by (simp add: key_inj)
  have idx: "j = i" if "(j, name) \<in> set (enumerate 0 noteNames)" "name = noteNames ! i" for j name
  proof -
    from that have "j < 12" "noteNames ! j = noteNames ! i" by (simp_all add: enumerate_noteNames)
    with i show ?thesis
      using nth_eq_iff_index_eq [OF noteNames_facts(2), of j i] by (simp add: noteNames_facts)
  qed
  have each: "?g b x m ?k = Some ?v \<or> ?g b x m ?k = m ?k"
    if "b \<in> set ?os" "x \<in> set (enumerate 0 noteNames)" for b x m
  proof (cases x)
    case (Pair j name)
    with that idx [of j name] step [OF that(1), of j name m] show ?thesis by auto
  qed
  have oin: "octave \<in> set ?os"
    unfolding octave_range using o by blast
  have here: "?g octave (i, noteNames ! i) m ?k = Some ?v" for m
    using step [OF oin, of i "noteNames ! i" m] by simp
  have inner_set: "?h octave m ?k = Some ?v" for m
  proof (rule fold_sets_key)
    have "(i, noteNames ! i) \<in> set (enumerate 0 noteNames)"
      using i by (simp add: enumerate_noteNames)
    with here show "\<exists>x\<in>set (enumerate 0 noteNames). \<forall>m. ?g octave x m ?k = Some ?v" by blast
    show "\<forall>x\<in>set (enumerate 0 noteNames). \<forall>m. ?g octave x m ?k = Some ?v \<or> ?g octave x m ?k = m ?k"
      using each [OF oin] by blast
  qed
  have inner_other: "?h b m ?k = m ?k" if "b \<in> set ?os" "b \<noteq> octave" for b m
  proof (rule fold_untouched, intro ballI allI)
    fix x m' assume "x \<in> set (enumerate 0 noteNames)"
    show "?g b x m' ?k = m' ?k"
      using step [OF that(1), of "fst x" "snd x" m'] that(2) by (cases x) simp
  qed
  show ?thesis
  proof (rule fold_sets_key)
    show "\<exists>b\<in>set ?os. \<forall>m. ?h b m ?k = Some ?v"
      using inner_set oin by blast
    show "\<forall>b\<in>set ?os. \<forall>m. ?h b m ?k = Some ?v \<or> ?h b m ?k = m ?k"
      using inner_set inner_other by blast
  qed
qed


lemma fold_touched:
  "fold f xs m k \<noteq> m k \<Longrightarrow> \<exists>x\<in>set xs. \<exists>m'. f x m' k \<noteq> m' k"
  using fold_untouched [of xs f k m] by blast

lemma flatNames_facts:
  "(flat, sharp) \<in> set flatNames \<Longrightarrow> flat \<notin> set noteNames"
  "(flat, sharp) \<in> set flatNames \<Longrightarrow> (flat', sharp') \<in> set flatNames \<Longrightarrow> flat' \<noteq> sharp"
  "(flat, sharp) \<in> set flatNames \<Longrightarrow> (flat, sharp') \<in> set flatNames \<Longrightarrow> sharp' = sharp"
  by (auto simp: flatNames_def noteNames_def)

lemma alias_step:
  assumes "0 \<le> b" "b \<le> 4" "0 \<le> octave" "octave \<le> 4"
  shows "(case m (s @ string_of_rune (rune (48 + b))) of
            Some freq \<Rightarrow> m(f @ string_of_rune (rune (48 + b)) \<mapsto> freq) | None \<Rightarrow> m)
           (n @ string_of_rune (rune (48 + octave)))
         = (if f = n \<and> b = octave
            then (case m (s @ string_of_rune (rune (48 + b))) of Some freq \<Rightarrow> Some freq
                  | None \<Rightarrow> m (n @ string_of_rune (rune (48 + octave))))
            else m (n @ string_of_rune (rune (48 + octave))))"
  using assms by (simp add: key_inj split: option.splits)

lemma alias_lookup:
  fixes S :: "string \<rightharpoonup> real"
  assumes fs: "(flat, sharp) \<in> set flatNames" and o: "0 \<le> octave" "octave \<le> 4"
    and S: "S (sharp @ string_of_rune (rune (48 + octave))) = Some v"
  shows "fold (\<lambda>(flat, sharp) notes.
          fold (\<lambda>octave notes.
             case notes (sharp @ string_of_rune (rune (48 + octave))) of
               Some freq \<Rightarrow> notes(flat @ string_of_rune (rune (48 + octave)) \<mapsto> freq)
             | None \<Rightarrow> notes)
            [0, 1, 2, 3, 4] notes)
         flatNames S (flat @ string_of_rune (rune (48 + octave))) = Some v"
    (is "fold ?H flatNames S ?k = Some v")
proof -
  let ?sk = "sharp @ string_of_rune (rune (48 + octave))"
  let ?os = "[0, 1, 2, 3, 4] :: int list"
  let ?st = "\<lambda>f s. \<lambda>b (m :: string \<rightharpoonup> real). case m (s @ string_of_rune (rune (48 + b))) of
               Some freq \<Rightarrow> m(f @ string_of_rune (rune (48 + b)) \<mapsto> freq) | None \<Rightarrow> m"
  let ?Q = "\<lambda>m :: string \<rightharpoonup> real. m ?sk = Some v"
  have oin: "octave \<in> set ?os" unfolding octave_range using o by blast
  have H: "?H (f, s) m = fold (?st f s) ?os m" for f s and m :: "string \<rightharpoonup> real"
    by (simp only: prod.case)
  have Qstep: "?st f s b m ?sk = m ?sk"
    if "(f, s) \<in> set flatNames" "b \<in> set ?os" for f s b and m :: "string \<rightharpoonup> real"
  proof -
    from fs that(1) have "f \<noteq> sharp" by (rule flatNames_facts(2))
    with alias_step [where b = b and octave = octave and m = m and s = s and f = f and n = sharp]
      that(2) o show ?thesis
      unfolding octave_range by simp
  qed
  have Qfold: "?Q (fold (?st f s) ?os m)"
    if "(f, s) \<in> set flatNames" "?Q m" for f s and m :: "string \<rightharpoonup> real"
  proof -
    have "fold (?st f s) ?os m ?sk = m ?sk"
    proof (rule fold_untouched, intro ballI allI)
      fix b and m' :: "string \<rightharpoonup> real"
      assume "b \<in> set ?os"
      from Qstep [OF that(1) this] show "?st f s b m' ?sk = m' ?sk" .
    qed
    with that(2) show ?thesis by (simp only:)
  qed
  have own: "fold (?st flat sharp) ?os m ?k = Some v" if "?Q m" for m :: "string \<rightharpoonup> real"
  proof (rule fold_settled [where Q = ?Q])
    have "?st flat sharp octave m' ?k = Some v" if "?Q m'" for m' :: "string \<rightharpoonup> real"
      using alias_step [where b = octave and octave = octave and m = m' and s = sharp
          and f = flat and n = flat] o that by simp
    with oin show "\<exists>b\<in>set ?os. \<forall>m. ?Q m \<longrightarrow> ?st flat sharp b m ?k = Some v" by blast
    show "\<forall>b\<in>set ?os. \<forall>m. ?Q m \<longrightarrow> ?Q (?st flat sharp b m)"
    proof (intro ballI allI impI)
      fix b and m' :: "string \<rightharpoonup> real"
      assume "b \<in> set ?os" "?Q m'"
      with Qstep [OF fs, of b m'] show "?Q (?st flat sharp b m')" by (simp only:)
    qed
    show "\<forall>b\<in>set ?os. \<forall>m. ?Q m \<and> m ?k = Some v \<longrightarrow> ?st flat sharp b m ?k = Some v"
    proof (intro ballI allI impI)
      fix b and m' :: "string \<rightharpoonup> real"
      assume b: "b \<in> set ?os" and m': "?Q m' \<and> m' ?k = Some v"
      from alias_step [where b = b and octave = octave and m = m' and s = sharp
          and f = flat and n = flat] b o m'
      show "?st flat sharp b m' ?k = Some v"
        unfolding octave_range by (auto split: option.splits)
    qed
    show "?Q m" by (rule that)
  qed
  have others: "fold (?st f s) ?os m ?k = Some v"
    if "(f, s) \<in> set flatNames" "?Q m" "m ?k = Some v" for f s and m :: "string \<rightharpoonup> real"
  proof (cases "f = flat")
    case True
    with that(1) fs have "s = sharp" by (auto dest: flatNames_facts(3))
    with True own [of m, OF that(2)] show ?thesis by (simp only:)
  next
    case False
    have "fold (?st f s) ?os m ?k = m ?k"
    proof (rule fold_untouched, intro ballI allI)
      fix b and m' :: "string \<rightharpoonup> real"
      assume "b \<in> set ?os"
      with alias_step [where b = b and octave = octave and m = m' and s = s
          and f = f and n = flat] o False
      show "?st f s b m' ?k = m' ?k" unfolding octave_range by simp
    qed
    with that(3) show ?thesis by (simp only:)
  qed
  show ?thesis
  proof (rule fold_settled [where Q = ?Q])
    have "\<forall>m. ?Q m \<longrightarrow> ?H (flat, sharp) m ?k = Some v"
      using own by (simp only: H) blast
    with fs show "\<exists>x\<in>set flatNames. \<forall>m. ?Q m \<longrightarrow> ?H x m ?k = Some v" by blast
    show "\<forall>x\<in>set flatNames. \<forall>m. ?Q m \<longrightarrow> ?Q (?H x m)"
    proof (intro ballI allI impI)
      fix x and m :: "string \<rightharpoonup> real"
      assume x: "x \<in> set flatNames" and q: "?Q m"
      obtain f s where fs': "x = (f, s)" by (cases x)
      with Qfold [of f s m] x q show "?Q (?H x m)" by (simp only: H)
    qed
    show "\<forall>x\<in>set flatNames. \<forall>m. ?Q m \<and> m ?k = Some v \<longrightarrow> ?H x m ?k = Some v"
    proof (intro ballI allI impI)
      fix x and m :: "string \<rightharpoonup> real"
      assume x: "x \<in> set flatNames" and q: "?Q m \<and> m ?k = Some v"
      obtain f s where fs': "x = (f, s)" by (cases x)
      with others [of f s m] x q show "?H x m ?k = Some v" by (simp only: H)
    qed
    show "?Q S" by (rule S)
  qed
qed

lemma alias_keeps_sharp:
  fixes S :: "string \<rightharpoonup> real"
  assumes "name \<in> set noteNames" "0 \<le> octave" "octave \<le> 4"
  shows "fold (\<lambda>(flat, sharp) notes.
          fold (\<lambda>octave notes.
             case notes (sharp @ string_of_rune (rune (48 + octave))) of
               Some freq \<Rightarrow> notes(flat @ string_of_rune (rune (48 + octave)) \<mapsto> freq)
             | None \<Rightarrow> notes)
            [0, 1, 2, 3, 4] notes)
         flatNames S (name @ string_of_rune (rune (48 + octave)))
       = S (name @ string_of_rune (rune (48 + octave)))"
    (is "fold ?H flatNames S ?k = S ?k")
proof (rule fold_untouched, intro ballI allI)
  fix x and m :: "string \<rightharpoonup> real"
  assume x: "x \<in> set flatNames"
  obtain f s where fs: "x = (f, s)" by (cases x)
  with x assms(1) have ne: "f \<noteq> name" using flatNames_facts(1) by blast
  have "fold (\<lambda>b m. case m (s @ string_of_rune (rune (48 + b))) of
               Some freq \<Rightarrow> m(f @ string_of_rune (rune (48 + b)) \<mapsto> freq) | None \<Rightarrow> m)
          [0, 1, 2, 3, 4] m ?k = m ?k"
  proof (rule fold_untouched, intro ballI allI)
    fix b :: int and m' :: "string \<rightharpoonup> real"
    assume "b \<in> set [0, 1, 2, 3, 4]"
    with alias_step [where b = b and octave = octave and m = m' and s = s
        and f = f and n = name] assms(2,3) ne
    show "(case m' (s @ string_of_rune (rune (48 + b))) of
               Some freq \<Rightarrow> m'(f @ string_of_rune (rune (48 + b)) \<mapsto> freq) | None \<Rightarrow> m') ?k = m' ?k"
      unfolding octave_range by simp
  qed
  with fs show "?H x m ?k = m ?k" by (simp only: prod.case)
qed

lemma noteMap_cases:
  assumes "noteMap name = Some idx"
  shows "0 \<le> idx \<and> idx < 12
     \<and> (name = noteNames ! nat idx \<or> (name, noteNames ! nat idx) \<in> set flatNames)"
  using assms by (auto simp: noteMap_def noteNames_def flatNames_def split: if_splits)

lemma table_lookup:
  assumes nm: "noteMap name = Some idx" and o: "0 \<le> octave" "octave \<le> 4"
  shows "buildNoteFrequencies (name @ string_of_rune (rune (48 + octave)))
       = Some (440 * 2 powr (real_of_int ((octave + 1) * 12 + idx - 69) / 12))"
proof -
  from noteMap_cases [OF nm] have idx: "0 \<le> idx" "nat idx < 12"
    and cases: "name = noteNames ! nat idx \<or> (name, noteNames ! nat idx) \<in> set flatNames"
    by auto
  have mem: "noteNames ! nat idx \<in> set noteNames"
    using idx by (simp add: noteNames_facts)
  have sharp: "fold (\<lambda>octave notes.
          fold (\<lambda>(i, name) notes.
             notes(name @ string_of_rune (rune (48 + octave)) \<mapsto>
               440.0 * 2 powr (real_of_int ((octave + 1) * 12 + int i - 69) / 12.0)))
            (enumerate 0 noteNames) notes)
         [0, 1, 2, 3, 4] Map.empty (noteNames ! nat idx @ string_of_rune (rune (48 + octave)))
       = Some (440 * 2 powr (real_of_int ((octave + 1) * 12 + idx - 69) / 12))"
    using sharp_lookup [OF idx(2) o] idx(1) by simp
  from cases show ?thesis
  proof
    assume "name = noteNames ! nat idx"
    then show ?thesis
      unfolding buildNoteFrequencies_def Let_def
      by (simp only: alias_keeps_sharp [OF mem o] sharp)
  next
    assume fl: "(name, noteNames ! nat idx) \<in> set flatNames"
    show ?thesis
      unfolding buildNoteFrequencies_def Let_def
      by (rule alias_lookup [OF fl o]) (rule sharp)
  qed
qed

lemma noteMap_known:
  "name \<in> set noteNames \<Longrightarrow> \<exists>idx. noteMap name = Some idx"
  "(flat, sharp) \<in> set flatNames \<Longrightarrow> \<exists>idx. noteMap flat = Some idx"
  by (auto simp: noteMap_def noteNames_def flatNames_def)

lemma table_keys:
  assumes "buildNoteFrequencies k \<noteq> None"
  shows "\<exists>name idx octave. noteMap name = Some idx \<and> 0 \<le> octave \<and> octave \<le> 4
           \<and> k = name @ string_of_rune (rune (48 + octave))"
proof -
  let ?os = "[0, 1, 2, 3, 4] :: int list"
  let ?g = "\<lambda>octave. \<lambda>(i, name) (notes :: string \<rightharpoonup> real).
      notes(name @ string_of_rune (rune (48 + octave)) \<mapsto>
        440.0 * 2 powr (real_of_int ((octave + 1) * 12 + int i - 69) / 12.0))"
  let ?st = "\<lambda>f s. \<lambda>b (m :: string \<rightharpoonup> real). case m (s @ string_of_rune (rune (48 + b))) of
               Some freq \<Rightarrow> m(f @ string_of_rune (rune (48 + b)) \<mapsto> freq) | None \<Rightarrow> m"
  let ?S = "fold (\<lambda>octave notes. fold (?g octave) (enumerate 0 noteNames) notes) ?os Map.empty"
  let ?R = "fold (\<lambda>(flat, sharp) notes. fold (?st flat sharp) ?os notes) flatNames ?S"
  have R: "buildNoteFrequencies = ?R"
    unfolding buildNoteFrequencies_def Let_def ..
  show ?thesis
  proof (cases "?R k = ?S k")
    case False
    from fold_touched [OF False] obtain x m
      where x: "x \<in> set flatNames" and m: "(case x of (flat, sharp) \<Rightarrow> \<lambda>notes. fold (?st flat sharp) ?os notes) m k \<noteq> m k"
      by blast
    obtain f s where fs: "x = (f, s)" by (cases x)
    from m [unfolded fs prod.case] have "fold (?st f s) ?os m k \<noteq> m k" .
    from fold_touched [OF this] obtain b m' where b: "b \<in> set ?os" and m': "?st f s b m' k \<noteq> m' k"
      by blast
    from m' have "k = f @ string_of_rune (rune (48 + b))"
      by (auto split: option.splits if_splits)
    moreover from x fs noteMap_known(2) obtain idx where "noteMap f = Some idx" by blast
    moreover from b have "0 \<le> b" "b \<le> 4" unfolding octave_range by simp_all
    ultimately show ?thesis by blast
  next
    case True
    with assms R have "?S k \<noteq> Map.empty k" by simp
    from fold_touched [OF this] obtain b m
      where b: "b \<in> set ?os" and m: "fold (?g b) (enumerate 0 noteNames) m k \<noteq> m k"
      by blast
    from fold_touched [OF m] obtain x m' where x: "x \<in> set (enumerate 0 noteNames)"
      and m': "?g b x m' k \<noteq> m' k"
      by blast
    obtain j name where jn: "x = (j, name)" by (cases x)
    with m' have "k = name @ string_of_rune (rune (48 + b))"
      by (auto split: if_splits)
    moreover from x jn have "name \<in> set noteNames"
      by (simp add: enumerate_noteNames noteNames_facts)
    with noteMap_known(1) obtain idx where "noteMap name = Some idx" by blast
    moreover from b have "0 \<le> b" "b \<le> 4" unfolding octave_range by simp_all
    ultimately show ?thesis by blast
  qed
qed

text \<open>A key that ends in an octave digit comes from that octave, within the range of a rune.\<close>

lemma string_of_rune_nonempty: "string_of_rune r \<noteq> []"
  by (simp add: string_of_rune_def)

lemma char_of_small:
  assumes "0 \<le> a" "a < 256" "0 \<le> c" "c < 256"
  shows "(char_of (a :: int) = char_of (c :: int)) = (a = c)"
  using assms by (simp add: char_of_quasi_inj)

lemma string_of_rune_last_digit:
  assumes "last (string_of_rune r) = char_of (48 + b)" "0 \<le> b" "b \<le> 9"
  shows "string_of_rune r = [char_of (48 + b)] \<and> r = 48 + b"
proof -
  have tail: "char_of (0x80 + x mod 0x40) \<noteq> char_of (48 + b)" for x :: int
  proof -
    have "0 \<le> x mod 0x40" "x mod 0x40 < 0x40" by simp_all
    then have "0 \<le> 0x80 + x mod 0x40" "0x80 + x mod 0x40 < 256" "0x80 + x mod 0x40 \<noteq> 48 + b"
      using assms(2,3) by linarith+
    with char_of_small [of "0x80 + x mod 0x40" "48 + b"] assms(2,3) show ?thesis by simp
  qed
  have bad: "CHR 0xBD \<noteq> char_of (48 + b)"
  proof -
    have "CHR 0xBD = char_of (0xBD :: int)" by (simp add: char_of_def)
    with char_of_small [of "0xBD" "48 + b"] assms(2,3) show ?thesis by simp
  qed
  have valid: "\<not> (r < 0 \<or> 0x10FFFF < r \<or> (0xD800 \<le> r \<and> r \<le> 0xDFFF))"
  proof
    assume "r < 0 \<or> 0x10FFFF < r \<or> (0xD800 \<le> r \<and> r \<le> 0xDFFF)"
    then have "string_of_rune r = [CHR 0xEF, CHR 0xBF, CHR 0xBD]"
      by (simp add: string_of_rune_def)
    with assms(1) bad show False by simp
  qed
  have small: "r < 0x80"
  proof (rule ccontr)
    assume "\<not> r < 0x80"
    with valid have "last (string_of_rune r) = char_of (0x80 + r mod 0x40)"
      by (auto simp: string_of_rune_def)
    with assms(1) tail [of r] show False by simp
  qed
  from valid small have s: "string_of_rune r = [char_of r]"
    by (simp add: string_of_rune_def)
  with assms(1) have "char_of r = char_of (48 + b)" by simp
  moreover from valid small have "0 \<le> r" "r < 256" by linarith+
  ultimately have "r = 48 + b"
    using char_of_small [of r "48 + b"] assms(2,3) by simp
  with s show ?thesis by simp
qed

lemma key_digit_inj:
  assumes "n @ string_of_rune (rune (48 + a)) = n' @ string_of_rune (rune (48 + b))"
    "0 \<le> b" "b \<le> 9" "- (2 ^ 31) \<le> 48 + a" "48 + a < 2 ^ 31"
  shows "n = n' \<and> a = b"
proof -
  have r: "rune (48 + a) = 48 + a"
    unfolding rune_def using assms(4,5) by (intro signed_take_bit_int_eq_self) simp_all
  from assms(1-3) have eq: "n @ string_of_rune (48 + a) = n' @ [char_of (48 + b)]"
    by (simp add: digit_rune r)
  then have "last (n @ string_of_rune (48 + a)) = char_of (48 + b)" by simp
  then have "last (string_of_rune (48 + a)) = char_of (48 + b)"
    by (simp add: string_of_rune_nonempty)
  note d = string_of_rune_last_digit [OF this assms(2,3)]
  from conjunct2 [OF d] have ab: "a = b" by simp
  from eq have "n = n'" unfolding conjunct1 [OF d] by simp
  with ab show ?thesis by simp
qed

lemma table_absent:
  assumes "noteMap name = None \<or> octave < 0 \<or> 4 < octave"
    "- (2 ^ 31) \<le> 48 + octave" "48 + octave < 2 ^ 31"
  shows "buildNoteFrequencies (name @ string_of_rune (rune (48 + octave))) = None"
proof (rule ccontr)
  assume "buildNoteFrequencies (name @ string_of_rune (rune (48 + octave))) \<noteq> None"
  from table_keys [OF this] obtain name' idx b where k: "noteMap name' = Some idx" "0 \<le> b" "b \<le> 4"
    "name @ string_of_rune (rune (48 + octave)) = name' @ string_of_rune (rune (48 + b))"
    by blast
  from key_digit_inj [OF k(4) k(2) _ assms(2,3)] k(3) have "name = name'" "octave = b" by simp_all
  with k assms(1) show False by simp
qed

section \<open>The matcher\<close>

lemma notesMatch_total:
  assumes "0 \<le> String note" "0 \<le> Fret note"
  shows "\<exists>m. notesMatch parse nf g pitch note = Inr m"
proof -
  have "0 \<le> x \<Longrightarrow> 0 \<le> x smod 12 \<and> x smod 12 < 12" for x :: int
    by (simp add: signed_modulo_int_def sgn_if)
  moreover have "0 \<le> Semitone s" for s
    by (auto simp: Semitone_def noteMap_def split: option.splits if_splits)
  ultimately have idx: "0 \<le> (Semitone s + Fret note) smod 12 \<and> (Semitone s + Fret note) smod 12 < 12" for s
    using assms(2) by (simp add: add_nonneg_nonneg)
  let ?t = "GetTuning parse (Song g)"
  note i = idx [of "?t ! nat (String note)"]
  have "\<exists>n. NoteWithTuning note ?t = Inr n"
    using assms(1) i by (simp add: NoteWithTuning_def Let_def noteNames_facts not_le not_less)
  then obtain n where n: "NoteAt parse (Song g) note = Inr n"
    by (auto simp: NoteAt_def)
  obtain k where k: "OctaveAt parse (Song g) note = Inr k"
    using assms(1)
    by (cases "OctaveAt parse (Song g) note")
      (auto simp: OctaveAt_def OctaveWithTuning_def Let_def split: if_splits)
  show ?thesis
    by (auto simp: notesMatch_def n k Let_def split: option.splits)
qed

text \<open>
  Claim C2. For every pitch sample with a positive frequency, and every expected note
  name and octave that the scan derives for a chart note: when the pair is in the reference
  table (the name is one of the nineteen note names, with index \<open>idx\<close> in the octave, and
  the octave is between 0 and 4), \<^verbatim>\<open>notesMatch\<close> returns true exactly when
  \<open>\<bar>1200 * log 2 (frequency / reference)\<bar> < 50\<close>, where
  \<open>reference = 440 * 2 powr ((midi - 69) / 12)\<close> and \<open>midi = 12 * (octave + 1) + idx\<close>; when
  the key of the expected note is absent from the table, it returns false, without a panic.
  A pair that is not in the table has no key in it, for every octave a rune can hold.
\<close>

theorem notesMatch_cents:
  assumes "NoteAt parse (Song g) note = Inr expectedNote"
    and "OctaveAt parse (Song g) note = Inr expectedOctave"
    and "Frequency pitch > 0"
  shows "(noteMap expectedNote = Some idx \<and> 0 \<le> expectedOctave \<and> expectedOctave \<le> 4 \<longrightarrow>
            notesMatch parse buildNoteFrequencies g pitch note =
              Inr (\<bar>1200 * log 2 (Frequency pitch /
                     (440 * 2 powr (real_of_int (12 * (expectedOctave + 1) + idx - 69) / 12)))\<bar> < 50))
       \<and> (buildNoteFrequencies (expectedNote @ string_of_rune (rune (48 + expectedOctave))) = None \<longrightarrow>
            notesMatch parse buildNoteFrequencies g pitch note = Inr False)
       \<and> ((noteMap expectedNote = None \<or> expectedOctave < 0 \<or> 4 < expectedOctave)
            \<and> - (2 ^ 31) \<le> 48 + expectedOctave \<and> 48 + expectedOctave < 2 ^ 31 \<longrightarrow>
            notesMatch parse buildNoteFrequencies g pitch note = Inr False)"
proof (intro conjI impI)
  assume a: "noteMap expectedNote = Some idx \<and> 0 \<le> expectedOctave \<and> expectedOctave \<le> 4"
  let ?ref = "440 * 2 powr (real_of_int (12 * (expectedOctave + 1) + idx - 69) / 12)"
  from a have "buildNoteFrequencies (expectedNote @ string_of_rune (rune (48 + expectedOctave)))
      = Some (440 * 2 powr (real_of_int ((expectedOctave + 1) * 12 + idx - 69) / 12))"
    by (intro table_lookup) simp_all
  then have look: "buildNoteFrequencies (expectedNote @ string_of_rune (rune (48 + expectedOctave)))
      = Some ?ref"
    by (simp add: mult.commute)
  have "0 < ?ref" by simp
  with assms(3) have pos: "0 < Frequency pitch / ?ref" by simp
  show "notesMatch parse buildNoteFrequencies g pitch note =
      Inr (\<bar>1200 * log 2 (Frequency pitch / ?ref)\<bar> < 50)"
    unfolding notesMatch_def assms(1,2) Let_def sum.case look option.case
    using pos by simp
next
  assume "buildNoteFrequencies (expectedNote @ string_of_rune (rune (48 + expectedOctave))) = None"
  then show "notesMatch parse buildNoteFrequencies g pitch note = Inr False"
    unfolding notesMatch_def assms(1,2) Let_def sum.case by simp
next
  assume "(noteMap expectedNote = None \<or> expectedOctave < 0 \<or> 4 < expectedOctave)
      \<and> - (2 ^ 31) \<le> 48 + expectedOctave \<and> 48 + expectedOctave < 2 ^ 31"
  then have "buildNoteFrequencies (expectedNote @ string_of_rune (rune (48 + expectedOctave))) = None"
    by (intro table_absent) simp_all
  then show "notesMatch parse buildNoteFrequencies g pitch note = Inr False"
    unfolding notesMatch_def assms(1,2) Let_def sum.case by simp
qed

lemma example_NoteAt:
  "NoteAt parse (Song (example_state [example_note 2 3 0] 2.03 0)) (example_note 2 3 0) = Inr ''E''"
  "OctaveAt parse (Song (example_state [example_note 2 3 0] 2.03 0)) (example_note 2 3 0) = Inr 1"
  "NoteAt parse (Song (example_state [example_note 2 3 0] 2.03 0)) (example_note 2 7 0) = Inr ''?''"
  "OctaveAt parse (Song (example_state [example_note 2 3 0] 2.03 0)) (example_note 2 7 0) = Inr 1"
  by (simp_all add: NoteAt_def OctaveAt_def NoteWithTuning_def OctaveWithTuning_def GetTuning_def
      example_state_def example_song_def example_note_def NewGameState_def CalculateDuration_def
      TuningStandard_def Let_def Semitone_def noteMap_def signed_divide_int_def)

theorem notesMatch_cents_witness:
  "Frequency (example_pitch (440 * 2 powr (- 41 / 12)) 0.9) > 0
   \<and> noteMap ''E'' = Some 4
   \<and> notesMatch (\<lambda>s. TuningStandard) buildNoteFrequencies (example_state [example_note 2 3 0] 2.03 0)
        (example_pitch (440 * 2 powr (- 41 / 12)) 0.9) (example_note 2 3 0) = Inr True
   \<and> noteMap ''?'' = None
   \<and> notesMatch (\<lambda>s. TuningStandard) buildNoteFrequencies (example_state [example_note 2 3 0] 2.03 0)
        (example_pitch (440 * 2 powr (- 41 / 12)) 0.9) (example_note 2 7 0) = Inr False"
proof -
  have f: "Frequency (example_pitch (440 * 2 powr (- 41 / 12)) 0.9) > 0"
    by (simp add: example_pitch_def)
  have e: "noteMap ''E'' = Some 4" and q: "noteMap ''?'' = None"
    by (simp_all add: noteMap_def)
  have absent: "buildNoteFrequencies (''?'' @ string_of_rune (rune (48 + 1))) = None"
    by (rule table_absent) (simp_all add: q)
  from notesMatch_cents [OF example_NoteAt(1,2) f, where idx = 4 and parse = "\<lambda>s. TuningStandard"] e
    notesMatch_cents [OF example_NoteAt(3,4) f, where idx = 0 and parse = "\<lambda>s. TuningStandard"] q absent
  show ?thesis
    by (simp add: example_pitch_def)
qed

section \<open>The scan for hits\<close>

lemma GetTuning_RegisterHit:
  "GetTuning parse (Song (RegisterHit g i q px py)) = GetTuning parse (Song g)"
  by (simp add: GetTuning_def RegisterHit_frame split: option.splits)

lemma notesMatch_RegisterHit:
  "notesMatch parse nf (RegisterHit g i q px py) pitch note = notesMatch parse nf g pitch note"
proof -
  have "NoteAt parse (Song (RegisterHit g i q px py)) note = NoteAt parse (Song g) note"
    "OctaveAt parse (Song (RegisterHit g i q px py)) note = OctaveAt parse (Song g) note"
    by (simp_all add: NoteAt_def OctaveAt_def GetTuning_RegisterHit)
  then show ?thesis by (simp add: notesMatch_def cong: sum.case_cong)
qed

lemma CheckHit_loop_frame:
  "CheckHit_loop parse nf pitch px t is g = Inr g' \<Longrightarrow>
     length (Notes (Song g')) = length (Notes (Song g))
     \<and> CurrentTime g' = CurrentTime g \<and> TotalNotes g' = TotalNotes g"
proof (induction "is" arbitrary: g)
  case Nil
  then show ?case by simp
next
  case (Cons i "is")
  then show ?case
    by (fastforce simp: Let_def RegisterHit_length RegisterHit_frame split: if_splits sum.splits)
qed

lemma CheckHit_loop_other:
  "CheckHit_loop parse nf pitch px t is g = Inr g' \<Longrightarrow> j \<notin> set is \<Longrightarrow>
     Notes (Song g') ! j = Notes (Song g) ! j"
proof (induction "is" arbitrary: g)
  case Nil
  then show ?case by simp
next
  case (Cons i "is")
  from Cons.prems have ne: "j \<noteq> i" and nin: "j \<notin> set is" by auto
  from Cons.prems(1) Cons.IH [OF _ nin] ne show ?case
    by (fastforce simp: Let_def RegisterHit_other split: if_splits sum.splits)
qed

lemma CheckHit_loop_hit:
  "CheckHit_loop parse nf pitch px t is g = Inr g' \<Longrightarrow> Hit (Notes (Song g) ! j) \<Longrightarrow>
     Notes (Song g') ! j = Notes (Song g) ! j"
proof (induction "is" arbitrary: g)
  case Nil
  then show ?case by simp
next
  case (Cons i "is")
  show ?case
  proof (cases "i = j")
    case True
    with Cons.prems Cons.IH [of g] show ?thesis by (simp add: Let_def)
  next
    case False
    with Cons.prems Cons.IH show ?thesis
      by (fastforce simp: Let_def RegisterHit_other split: if_splits sum.splits)
  qed
qed


lemma CheckHit_loop_tuning:
  "CheckHit_loop parse nf pitch px t is g = Inr g' \<Longrightarrow>
     GetTuning parse' (Song g') = GetTuning parse' (Song g)"
proof (induction "is" arbitrary: g)
  case Nil
  then show ?case by simp
next
  case (Cons i "is")
  then show ?case
    by (fastforce simp: Let_def GetTuning_RegisterHit split: if_splits sum.splits)
qed

lemma CheckHit_loop_one_match:
  assumes "CheckHit_loop parse nf pitch px t is g = Inr g'"
    and "\<not> Hit (Notes (Song g) ! a)" "Hit (Notes (Song g') ! a)"
      "\<not> Time (Notes (Song g) ! a) - t < - MissWindow"
    and "\<not> Hit (Notes (Song g) ! b)" "Hit (Notes (Song g') ! b)"
      "\<not> Time (Notes (Song g) ! b) - t < - MissWindow"
  shows "a = b"
  using assms
proof (induction "is" arbitrary: g)
  case Nil
  then show ?case by simp
next
  case (Cons i "is")
  let ?n = "Notes (Song g) ! i"
  let ?y = "real_of_int (80 + String ?n * 40)"
  show ?case
  proof (cases "Hit ?n \<or> Time ?n - t > MissWindow")
    case True
    with Cons.prems(1) have "CheckHit_loop parse nf pitch px t is g = Inr g'"
      by (auto simp: Let_def split: if_splits)
    from Cons.IH [OF this Cons.prems(2-7)] show ?thesis .
  next
    case False
    note live = this
    show ?thesis
    proof (cases "Time ?n - t < - MissWindow")
      case True
      let ?g1 = "RegisterHit g i HitMiss px ?y"
      from True live Cons.prems(1) have run: "CheckHit_loop parse nf pitch px t is ?g1 = Inr g'"
        by (simp add: Let_def)
      from True Cons.prems(4,7) have "a \<noteq> i" "b \<noteq> i" by auto
      then have "Notes (Song ?g1) ! a = Notes (Song g) ! a" "Notes (Song ?g1) ! b = Notes (Song g) ! b"
        by (simp_all add: RegisterHit_other)
      with Cons.IH [OF run] Cons.prems(2-7) show ?thesis by simp
    next
      case False
      show ?thesis
      proof (cases "notesMatch parse nf g pitch ?n = Inr True")
        case True
        with False live Cons.prems(1)
        have g': "g' = RegisterHit g i (getHitQuality \<bar>Time ?n - t\<bar>) px ?y"
          by (simp add: Let_def)
        have "a = i"
          using Cons.prems(2,3) by (cases "a = i") (simp_all add: g' RegisterHit_other)
        moreover have "b = i"
          using Cons.prems(5,6) by (cases "b = i") (simp_all add: g' RegisterHit_other)
        ultimately show ?thesis by simp
      next
        case nomatch: False
        with False live Cons.prems(1) have "CheckHit_loop parse nf pitch px t is g = Inr g'"
          by (auto simp: Let_def split: sum.splits if_splits)
        from Cons.IH [OF this Cons.prems(2-7)] show ?thesis .
      qed
    qed
  qed
qed

lemma filter_update_count:
  "i < length xs \<Longrightarrow> \<not> P (xs ! i) \<Longrightarrow> P v \<Longrightarrow>
     length (filter P (xs[i := v])) = Suc (length (filter P xs))"
proof (induction xs arbitrary: i)
  case Nil
  then show ?case by simp
next
  case (Cons x xs)
  then show ?case by (cases i) simp_all
qed

lemma RegisterHit_hit_count:
  "i < length (Notes (Song g)) \<Longrightarrow> \<not> Hit (Notes (Song g) ! i) \<Longrightarrow>
     hit_count (RegisterHit g i q px py) = Suc (hit_count g)"
  by (simp add: hit_count_def RegisterHit_Notes filter_update_count)

lemma RegisterHit_balance:
  assumes "i < length (Notes (Song g))" "\<not> Hit (Notes (Song g) ! i)"
  shows "NotesHit (RegisterHit g i q px py) + NotesMissed (RegisterHit g i q px py)
           - int (hit_count (RegisterHit g i q px py))
         = NotesHit g + NotesMissed g - int (hit_count g)"
  using RegisterHit_hit_count [OF assms, of q px py]
  by (simp add: RegisterHit_NotesHit RegisterHit_NotesMissed)

lemma RegisterHit_combo_bound:
  "0 \<le> MaxCombo g \<and> Combo g \<le> MaxCombo g \<Longrightarrow>
     0 \<le> MaxCombo (RegisterHit g i q px py)
     \<and> Combo (RegisterHit g i q px py) \<le> MaxCombo (RegisterHit g i q px py)"
  by (auto simp: RegisterHit_Combo RegisterHit_MaxCombo)

lemma CheckHit_loop_balance:
  assumes "CheckHit_loop parse nf pitch px t is g = Inr g'"
    and "\<forall>i\<in>set is. i < length (Notes (Song g))"
  shows "NotesHit g' + NotesMissed g' - int (hit_count g')
           = NotesHit g + NotesMissed g - int (hit_count g)
         \<and> (0 \<le> MaxCombo g \<and> Combo g \<le> MaxCombo g \<longrightarrow> 0 \<le> MaxCombo g' \<and> Combo g' \<le> MaxCombo g')"
  using assms
proof (induction "is" arbitrary: g)
  case Nil
  then show ?case by simp
next
  case (Cons i "is")
  let ?n = "Notes (Song g) ! i"
  let ?y = "real_of_int (80 + String ?n * 40)"
  from Cons.prems(2) have i: "i < length (Notes (Song g))"
    and rest: "\<forall>k\<in>set is. k < length (Notes (Song g))" by simp_all
  have rest': "\<forall>k\<in>set is. k < length (Notes (Song (RegisterHit g i q px ?y)))" for q
    using rest by (simp add: RegisterHit_length)
  show ?case
  proof (cases "Hit ?n")
    case True
    with Cons.prems(1) Cons.IH [OF _ rest] show ?thesis by (simp add: Let_def)
  next
    case False
    note unhit = this
    from Cons.prems(1) unhit
    consider (skip) "CheckHit_loop parse nf pitch px t is g = Inr g'"
      | (stale) "CheckHit_loop parse nf pitch px t is (RegisterHit g i HitMiss px ?y) = Inr g'"
      | (match) "g' = RegisterHit g i (getHitQuality \<bar>Time ?n - t\<bar>) px ?y"
      by (auto simp: Let_def split: if_splits sum.splits)
    then show ?thesis
    proof cases
      case skip
      with Cons.IH [OF _ rest] show ?thesis by simp
    next
      case stale
      from Cons.IH [OF stale rest'] RegisterHit_balance [OF i unhit, of HitMiss px ?y]
        RegisterHit_combo_bound [of g i HitMiss px ?y]
      show ?thesis by simp
    next
      case match
      with RegisterHit_balance [OF i unhit] RegisterHit_combo_bound [of g i]
      show ?thesis by simp
    qed
  qed
qed

lemma Update_loop_balance:
  assumes "\<forall>i\<in>set is. i < length (Notes (Song g))"
  shows "NotesHit (Update_loop t is g) + NotesMissed (Update_loop t is g)
           - int (hit_count (Update_loop t is g))
           = NotesHit g + NotesMissed g - int (hit_count g)
         \<and> (0 \<le> MaxCombo g \<and> Combo g \<le> MaxCombo g \<longrightarrow>
              0 \<le> MaxCombo (Update_loop t is g)
              \<and> Combo (Update_loop t is g) \<le> MaxCombo (Update_loop t is g))"
  using assms
proof (induction "is" arbitrary: g)
  case Nil
  then show ?case by simp
next
  case (Cons i "is")
  let ?n = "Notes (Song g) ! i"
  let ?g1 = "RegisterHit g i HitMiss 0 (real_of_int (80 + String ?n * 40))"
  from Cons.prems have i: "i < length (Notes (Song g))"
    and rest: "\<forall>k\<in>set is. k < length (Notes (Song g))" by simp_all
  have rest': "\<forall>k\<in>set is. k < length (Notes (Song ?g1))"
    using rest by (simp add: RegisterHit_length)
  show ?case
  proof (cases "\<not> Hit ?n \<and> t - Time ?n > MissWindow")
    case True
    then have "Update_loop t (i # is) g = Update_loop t is ?g1" by (simp add: Let_def)
    with Cons.IH [OF rest'] RegisterHit_balance [OF i, of HitMiss 0] True
      RegisterHit_combo_bound [of g i HitMiss 0]
    show ?thesis by simp
  next
    case False
    then have "Update_loop t (i # is) g = Update_loop t is g" by (auto simp: Let_def)
    with Cons.IH [OF rest] show ?thesis by simp
  qed
qed

lemma example_match:
  "notesMatch parse buildNoteFrequencies (example_state ns t c)
     (example_pitch frequency_E1 cf) (example_note u 3 0) = Inr True"
proof -
  have n: "NoteAt parse (Song (example_state ns t c)) (example_note u 3 0) = Inr ''E''"
    and k: "OctaveAt parse (Song (example_state ns t c)) (example_note u 3 0) = Inr 1"
    by (simp_all add: NoteAt_def OctaveAt_def NoteWithTuning_def OctaveWithTuning_def GetTuning_def
        example_state_def example_song_def example_note_def NewGameState_def CalculateDuration_def
        TuningStandard_def Let_def Semitone_def noteMap_def signed_divide_int_def)
  have "noteMap ''E'' = Some 4" by (simp add: noteMap_def)
  from table_lookup [OF this, of 1]
  have look: "buildNoteFrequencies (''E'' @ string_of_rune (rune (48 + 1))) = Some (440 * 2 powr (- 41 / 12))"
    by simp
  show ?thesis
    unfolding notesMatch_def n k Let_def sum.case look option.case
    by (simp add: example_pitch_def frequency_E1_def)
qed

lemma example_state_simps:
  "Notes (Song (example_state ns t c)) = ns"
  "CurrentTime (example_state ns t c) = t"
  "Combo (example_state ns t c) = c"
  "MaxCombo (example_state ns t c) = c"
  "Score (example_state ns t c) = 0"
  "NotesHit (example_state ns t c) = 0"
  "NotesMissed (example_state ns t c) = 0"
  "TotalNotes (example_state ns t c) = int (length ns)"
  by (simp_all add: example_state_def example_song_def NewGameState_def CalculateDuration_def Let_def)

lemma example_note_simps:
  "Time (example_note u k f) = u"
  "String (example_note u k f) = k"
  "Fret (example_note u k f) = f"
  "Hit (example_note u k f) = False"
  by (simp_all add: example_note_def)

lemma example_pitch_simps:
  "IsValid (example_pitch f cf) \<longleftrightarrow> cf > 0.5"
  "Frequency (example_pitch f cf) = f"
  by (simp_all add: IsValid_def example_pitch_def)

section \<open>One judgment per scan\<close>

text \<open>
  Claim C3. In a single invocation of \<^verbatim>\<open>CheckHit\<close> at most one note becomes hit through a
  pitch match, however many unhit notes lie within the judging window: a note that the
  scan marks hit without it having aged past the miss window was registered by the
  matching branch, and two such notes are the same note. When the latest sample is not
  valid (its note name is empty or its confidence does not exceed 0.5) the invocation
  judges no note at all: it returns the state unchanged.
\<close>

theorem CheckHit_one_match:
  "(\<not> IsValid pitch \<longrightarrow> CheckHit parse nf pitch playLineX g = Inr g)
   \<and> (\<forall>g' a b. CheckHit parse nf pitch playLineX g = Inr g'
         \<and> \<not> Hit (Notes (Song g) ! a) \<and> Hit (Notes (Song g') ! a)
         \<and> \<not> Time (Notes (Song g) ! a) - CurrentTime g < - MissWindow
         \<and> \<not> Hit (Notes (Song g) ! b) \<and> Hit (Notes (Song g') ! b)
         \<and> \<not> Time (Notes (Song g) ! b) - CurrentTime g < - MissWindow
       \<longrightarrow> a = b)"
proof (intro conjI allI impI)
  assume "\<not> IsValid pitch"
  then show "CheckHit parse nf pitch playLineX g = Inr g" by (simp add: CheckHit_def)
next
  fix g' a b
  assume h: "CheckHit parse nf pitch playLineX g = Inr g'
         \<and> \<not> Hit (Notes (Song g) ! a) \<and> Hit (Notes (Song g') ! a)
         \<and> \<not> Time (Notes (Song g) ! a) - CurrentTime g < - MissWindow
         \<and> \<not> Hit (Notes (Song g) ! b) \<and> Hit (Notes (Song g') ! b)
         \<and> \<not> Time (Notes (Song g) ! b) - CurrentTime g < - MissWindow"
  show "a = b"
  proof (cases "IsValid pitch")
    case True
    with h have "CheckHit_loop parse nf pitch playLineX (CurrentTime g)
        [0..<length (Notes (Song g))] g = Inr g'"
      by (simp add: CheckHit_def Let_def)
    from CheckHit_loop_one_match [OF this] h show ?thesis by blast
  next
    case False
    with h have "g' = g" by (simp add: CheckHit_def)
    with h show ?thesis by blast
  qed
qed

theorem CheckHit_one_match_witness:
  "\<not> IsValid (example_pitch frequency_E1 0.4)
   \<and> CheckHit (\<lambda>s. TuningStandard) buildNoteFrequencies (example_pitch frequency_E1 0.4) 600
        (example_state [example_note 2 3 0, example_note 2.1 3 0] 2.03 0)
       = Inr (example_state [example_note 2 3 0, example_note 2.1 3 0] 2.03 0)
   \<and> CheckHit (\<lambda>s. TuningStandard) buildNoteFrequencies (example_pitch frequency_E1 0.9) 600
        (example_state [example_note 2 3 0, example_note 2.1 3 0] 2.03 0)
       = Inr (RegisterHit (example_state [example_note 2 3 0, example_note 2.1 3 0] 2.03 0) 0 HitPerfect 600 200)
   \<and> map Hit (Notes (Song (RegisterHit (example_state [example_note 2 3 0, example_note 2.1 3 0] 2.03 0)
        0 HitPerfect 600 200))) = [True, False]"
proof -
  let ?g = "example_state [example_note 2 3 0, example_note 2.1 3 0] 2.03 0"
  let ?p = "example_pitch frequency_E1"
  have inv: "\<not> IsValid (?p 0.4)"
    by (simp add: example_pitch_simps)
  have run: "CheckHit (\<lambda>s. TuningStandard) buildNoteFrequencies (?p 0.9) 600 ?g
      = Inr (RegisterHit ?g 0 HitPerfect 600 200)"
    by (simp add: CheckHit_def Let_def example_state_simps example_note_simps example_pitch_simps
        example_match getHitQuality_def PerfectWindow_def MissWindow_def)
  have hits: "map Hit (Notes (Song (RegisterHit ?g 0 HitPerfect 600 200))) = [True, False]"
    by (simp add: RegisterHit_Notes example_state_simps example_note_simps)
  from CheckHit_one_match [of "?p 0.4" "\<lambda>s. TuningStandard" buildNoteFrequencies 600 ?g] inv run hits
  show ?thesis by simp
qed

section \<open>Sessions\<close>

lemma GameState_Update_frame:
  "Song (GameState_Update elapsed young g) = Song g"
  "Score (GameState_Update elapsed young g) = Score g"
  "Combo (GameState_Update elapsed young g) = Combo g"
  "MaxCombo (GameState_Update elapsed young g) = MaxCombo g"
  "NotesHit (GameState_Update elapsed young g) = NotesHit g"
  "NotesMissed (GameState_Update elapsed young g) = NotesMissed g"
  "TotalNotes (GameState_Update elapsed young g) = TotalNotes g"
  by (simp_all add: GameState_Update_def Let_def)

lemma Start_frame:
  "Song (Start g) = Song g"
  "Score (Start g) = Score g"
  "Combo (Start g) = Combo g"
  "MaxCombo (Start g) = MaxCombo g"
  "NotesHit (Start g) = NotesHit g"
  "NotesMissed (Start g) = NotesMissed g"
  "TotalNotes (Start g) = TotalNotes g"
  "CurrentTime (Start g) = CurrentTime g"
  by (simp_all add: Start_def)

lemma hit_count_clock:
  "hit_count (GameState_Update elapsed young g) = hit_count g"
  "hit_count (Start g) = hit_count g"
  by (simp_all add: hit_count_def GameState_Update_frame Start_frame)

lemma upt_in_range: "\<forall>i\<in>set [0..<n]. i < n"
  by simp

lemma invoke_judged_once:
  assumes "invoke parse nf c g = Inr g'"
  shows "length (Notes (Song g')) = length (Notes (Song g))
       \<and> (\<forall>j. Hit (Notes (Song g) ! j) \<longrightarrow> Notes (Song g') ! j = Notes (Song g) ! j)
       \<and> NotesHit g' + NotesMissed g' - int (hit_count g')
           = NotesHit g + NotesMissed g - int (hit_count g)"
proof (cases c)
  case (CallCheckHit pitch playLineX)
  show ?thesis
  proof (cases "IsValid pitch")
    case True
    with assms CallCheckHit
    have run: "CheckHit_loop parse nf pitch playLineX (CurrentTime g)
        [0..<length (Notes (Song g))] g = Inr g'"
      by (simp add: CheckHit_def Let_def)
    from CheckHit_loop_frame [OF run] CheckHit_loop_hit [OF run]
      CheckHit_loop_balance [OF run upt_in_range]
    show ?thesis by blast
  next
    case False
    with assms CallCheckHit show ?thesis by (simp add: CheckHit_def)
  qed
next
  case CallUpdate
  with assms have g': "g' = Update_loop (CurrentTime g) [0..<length (Notes (Song g))] g"
    by (simp add: HitDetector_Update_def Let_def)
  from Update_loop_frame [where t = "CurrentTime g" and g = g]
    Update_loop_hit [where t = "CurrentTime g" and g = g]
    Update_loop_balance [OF upt_in_range, where t = "CurrentTime g"]
  show ?thesis unfolding g' by blast
next
  case (CallGameStateUpdate elapsed young)
  with assms have "g' = GameState_Update elapsed young g" by simp
  then show ?thesis by (simp add: GameState_Update_frame hit_count_clock)
next
  case CallStart
  with assms have "g' = Start g" by simp
  then show ?thesis by (simp add: Start_frame hit_count_clock)
qed

lemma session_judged_once:
  assumes "session parse nf cs g = Inr g'"
  shows "length (Notes (Song g')) = length (Notes (Song g))
       \<and> (\<forall>j. Hit (Notes (Song g) ! j) \<longrightarrow> Notes (Song g') ! j = Notes (Song g) ! j)
       \<and> NotesHit g' + NotesMissed g' - int (hit_count g')
           = NotesHit g + NotesMissed g - int (hit_count g)"
  using assms
proof (induction cs arbitrary: g)
  case Nil
  then show ?case by simp
next
  case (Cons c cs)
  from Cons.prems obtain g1 where c: "invoke parse nf c g = Inr g1"
    and cs: "session parse nf cs g1 = Inr g'"
    by (auto split: sum.splits)
  note a = invoke_judged_once [OF c]
  note b = Cons.IH [OF cs]
  have "Notes (Song g') ! j = Notes (Song g) ! j" if "Hit (Notes (Song g) ! j)" for j
  proof -
    from a that have e: "Notes (Song g1) ! j = Notes (Song g) ! j" by blast
    with that have "Hit (Notes (Song g1) ! j)" by simp
    with b e show ?thesis by simp
  qed
  with a b show ?case by simp
qed

text \<open>
  Claim C5. Over any sequence of \<^verbatim>\<open>CheckHit\<close> and \<^verbatim>\<open>Update\<close> invocations (with any moves of
  the clock between them), a note that is marked hit is never judged again: its judgment
  (hit flag, quality and hit time) stays as it is. Each call of \<^verbatim>\<open>RegisterHit\<close> adds one to
  \<open>NotesHit + NotesMissed\<close>, and over the session this sum grows by exactly the number of
  notes that became hit, so \<^verbatim>\<open>RegisterHit\<close> ran at most once for each note.
\<close>

theorem hit_note_never_judged_again:
  assumes "session parse nf cs g = Inr g'"
  shows "(\<forall>i < length (Notes (Song g)).
            Hit (Notes (Song g) ! i) \<longrightarrow> Notes (Song g') ! i = Notes (Song g) ! i)
       \<and> length (Notes (Song g')) = length (Notes (Song g))
       \<and> (NotesHit g' + NotesMissed g') - (NotesHit g + NotesMissed g)
           = int (hit_count g') - int (hit_count g)"
  using session_judged_once [OF assms] by simp


lemma CheckHit_loop_inert:
  "\<forall>j\<in>set is. Hit (Notes (Song g) ! j) \<or> Time (Notes (Song g) ! j) - t > MissWindow \<Longrightarrow>
     CheckHit_loop parse nf pitch px t is g = Inr g"
  by (induction "is") (auto simp: Let_def)

theorem hit_note_never_judged_again_witness:
  "session (\<lambda>s. TuningStandard) buildNoteFrequencies
       [CallUpdate, CallCheckHit (example_pitch frequency_E1 0.9) 600, CallUpdate]
       (example_state [(example_note 1 3 0)\<lparr>Hit := True, HitQuality := HitGood\<rparr>, example_note 2 3 0] 3 0)
     = Inr (RegisterHit
         (example_state [(example_note 1 3 0)\<lparr>Hit := True, HitQuality := HitGood\<rparr>, example_note 2 3 0] 3 0)
         (Suc 0) HitMiss 0 200)
   \<and> Hit (Notes (Song
         (example_state [(example_note 1 3 0)\<lparr>Hit := True, HitQuality := HitGood\<rparr>, example_note 2 3 0] 3 0)) ! 0)
   \<and> HitQuality (Notes (Song (RegisterHit
         (example_state [(example_note 1 3 0)\<lparr>Hit := True, HitQuality := HitGood\<rparr>, example_note 2 3 0] 3 0)
         (Suc 0) HitMiss 0 200)) ! 0) = HitGood
   \<and> NotesHit (RegisterHit
         (example_state [(example_note 1 3 0)\<lparr>Hit := True, HitQuality := HitGood\<rparr>, example_note 2 3 0] 3 0)
         (Suc 0) HitMiss 0 200)
       + NotesMissed (RegisterHit
         (example_state [(example_note 1 3 0)\<lparr>Hit := True, HitQuality := HitGood\<rparr>, example_note 2 3 0] 3 0)
         (Suc 0) HitMiss 0 200) = 1"
proof -
  let ?g = "example_state [(example_note 1 3 0)\<lparr>Hit := True, HitQuality := HitGood\<rparr>, example_note 2 3 0] 3 0"
  let ?g' = "RegisterHit ?g (Suc 0) HitMiss 0 200"
  have sweep: "HitDetector_Update ?g = ?g'"
    by (simp add: HitDetector_Update_def Let_def example_state_simps example_note_simps MissWindow_def)
  have allhit: "\<forall>j\<in>set [0..<length (Notes (Song ?g'))]. Hit (Notes (Song ?g') ! j)"
    by (simp add: RegisterHit_Notes example_state_simps less_Suc_eq)
  have loop: "CheckHit_loop (\<lambda>s. TuningStandard) buildNoteFrequencies (example_pitch frequency_E1 0.9) 600
      (CurrentTime ?g') [0..<length (Notes (Song ?g'))] ?g' = Inr ?g'"
    by (rule CheckHit_loop_inert) (use allhit in blast)
  have valid: "IsValid (example_pitch frequency_E1 0.9)"
    by (simp add: example_pitch_simps)
  from valid loop
  have scan: "CheckHit (\<lambda>s. TuningStandard) buildNoteFrequencies (example_pitch frequency_E1 0.9) 600 ?g' = Inr ?g'"
    by (simp only: CheckHit_def Let_def not_True_eq_False if_False)
  have again: "HitDetector_Update ?g' = ?g'"
  proof -
    have "Update_loop t is ?g' = ?g'" if "\<forall>j\<in>set is. Hit (Notes (Song ?g') ! j)" for t "is"
      using that by (induction "is") (simp_all add: Let_def)
    with allhit show ?thesis by (simp only: HitDetector_Update_def Let_def)
  qed
  have run: "session (\<lambda>s. TuningStandard) buildNoteFrequencies
       [CallUpdate, CallCheckHit (example_pitch frequency_E1 0.9) 600, CallUpdate] ?g = Inr ?g'"
    by (simp add: sweep scan again)
  have h: "Hit (Notes (Song ?g) ! 0)"
    by (simp add: example_state_simps)
  from hit_note_never_judged_again [OF run] h run
  show ?thesis
    by (simp add: example_state_simps RegisterHit_NotesHit RegisterHit_NotesMissed)
qed

section \<open>The invariants of the score\<close>

lemma hit_count_le: "hit_count g \<le> length (Notes (Song g))"
  by (simp add: hit_count_def)

lemma mutated_invariant:
  assumes "mutated song g"
  shows "NotesHit g + NotesMissed g \<le> int (hit_count g)
       \<and> TotalNotes g = int (length (Notes (Song g)))
       \<and> 0 \<le> MaxCombo g \<and> Combo g \<le> MaxCombo g"
  using assms
proof (induction rule: mutated.induct)
  case fresh
  show ?case by (simp add: NewGameState_def Let_def)
next
  case (register g i q px py)
  from RegisterHit_balance [OF register.hyps(2,3), of q px py]
    RegisterHit_combo_bound [of g i q px py] register.IH
  show ?case by (simp add: RegisterHit_length RegisterHit_frame)
next
  case (clock g elapsed young)
  then show ?case by (simp add: GameState_Update_frame hit_count_clock)
next
  case (start g)
  then show ?case by (simp add: Start_frame hit_count_clock)
qed

lemma CheckHit_loop_mutated:
  assumes "CheckHit_loop parse nf pitch px t is g = Inr g'" "mutated song g"
    "\<forall>i\<in>set is. i < length (Notes (Song g))"
  shows "mutated song g'"
  using assms
proof (induction "is" arbitrary: g)
  case Nil
  then show ?case by simp
next
  case (Cons i "is")
  let ?n = "Notes (Song g) ! i"
  let ?y = "real_of_int (80 + String ?n * 40)"
  from Cons.prems(3) have i: "i < length (Notes (Song g))"
    and rest: "\<forall>k\<in>set is. k < length (Notes (Song g))" by simp_all
  show ?case
  proof (cases "Hit ?n")
    case True
    with Cons.prems(1) have "CheckHit_loop parse nf pitch px t is g = Inr g'" by (simp add: Let_def)
    from Cons.IH [OF this Cons.prems(2) rest] show ?thesis .
  next
    case False
    have reg: "mutated song (RegisterHit g i q px ?y)" for q
      using Cons.prems(2) i False by (rule mutated.register)
    have rest': "\<forall>k\<in>set is. k < length (Notes (Song (RegisterHit g i q px ?y)))" for q
      using rest by (simp add: RegisterHit_length)
    from Cons.prems(1) False
    consider (skip) "CheckHit_loop parse nf pitch px t is g = Inr g'"
      | (stale) "CheckHit_loop parse nf pitch px t is (RegisterHit g i HitMiss px ?y) = Inr g'"
      | (match) "g' = RegisterHit g i (getHitQuality \<bar>Time ?n - t\<bar>) px ?y"
      by (auto simp: Let_def split: if_splits sum.splits)
    then show ?thesis
    proof cases
      case skip
      from Cons.IH [OF skip Cons.prems(2) rest] show ?thesis .
    next
      case stale
      from Cons.IH [OF stale reg rest'] show ?thesis .
    next
      case match
      with reg show ?thesis by simp
    qed
  qed
qed

lemma Update_loop_mutated:
  assumes "mutated song g" "\<forall>i\<in>set is. i < length (Notes (Song g))"
  shows "mutated song (Update_loop t is g)"
  using assms
proof (induction "is" arbitrary: g)
  case Nil
  then show ?case by simp
next
  case (Cons i "is")
  let ?n = "Notes (Song g) ! i"
  let ?g1 = "RegisterHit g i HitMiss 0 (real_of_int (80 + String ?n * 40))"
  from Cons.prems(2) have i: "i < length (Notes (Song g))"
    and rest: "\<forall>k\<in>set is. k < length (Notes (Song g))" by simp_all
  show ?case
  proof (cases "\<not> Hit ?n \<and> t - Time ?n > MissWindow")
    case True
    then have step: "Update_loop t (i # is) g = Update_loop t is ?g1" by (simp add: Let_def)
    from True have "mutated song ?g1"
      using Cons.prems(1) i by (intro mutated.register) simp_all
    moreover have "\<forall>k\<in>set is. k < length (Notes (Song ?g1))"
      using rest by (simp add: RegisterHit_length)
    ultimately show ?thesis unfolding step by (rule Cons.IH)
  next
    case False
    then have "Update_loop t (i # is) g = Update_loop t is g" by (auto simp: Let_def)
    with Cons.IH [OF Cons.prems(1) rest] show ?thesis by simp
  qed
qed

lemma session_mutated:
  assumes "session parse nf cs g = Inr g'" "mutated song g"
  shows "mutated song g'"
  using assms
proof (induction cs arbitrary: g)
  case Nil
  then show ?case by simp
next
  case (Cons c cs)
  from Cons.prems(1) obtain g1 where c: "invoke parse nf c g = Inr g1"
    and cs: "session parse nf cs g1 = Inr g'"
    by (auto split: sum.splits)
  have "mutated song g1"
  proof (cases c)
    case (CallCheckHit pitch playLineX)
    show ?thesis
    proof (cases "IsValid pitch")
      case True
      with c CallCheckHit
      have "CheckHit_loop parse nf pitch playLineX (CurrentTime g)
          [0..<length (Notes (Song g))] g = Inr g1"
        by (simp add: CheckHit_def Let_def)
      from CheckHit_loop_mutated [OF this Cons.prems(2) upt_in_range] show ?thesis .
    next
      case False
      with c CallCheckHit Cons.prems(2) show ?thesis by (simp add: CheckHit_def)
    qed
  next
    case CallUpdate
    with c have "g1 = Update_loop (CurrentTime g) [0..<length (Notes (Song g))] g"
      by (simp add: HitDetector_Update_def Let_def)
    with Update_loop_mutated [OF Cons.prems(2) upt_in_range] show ?thesis by simp
  next
    case (CallGameStateUpdate elapsed young)
    with c Cons.prems(2) show ?thesis by (auto intro: mutated.clock)
  next
    case CallStart
    with c Cons.prems(2) show ?thesis by (auto intro: mutated.start)
  qed
  from Cons.IH [OF cs this] show ?case .
qed

text \<open>
  Claim C8. Starting from a fresh state (\<^verbatim>\<open>NewGameState\<close>: all counters 0, \<open>TotalNotes\<close> the
  number of chart notes), every mutation of the score keeps both invariants:
  \<open>NotesHit + NotesMissed \<le> TotalNotes\<close> and \<open>Combo \<le> MaxCombo\<close>. They hold after every
  single \<^verbatim>\<open>RegisterHit\<close> on a note that is not yet hit (the only way the scans call it), and so
  after every sequence of \<^verbatim>\<open>CheckHit\<close> and \<^verbatim>\<open>Update\<close> invocations of a session.
\<close>

theorem score_invariants:
  "(mutated song g \<longrightarrow>
      NotesHit g + NotesMissed g \<le> TotalNotes g \<and> Combo g \<le> MaxCombo g)
   \<and> (session parse nf cs (NewGameState song) = Inr g \<longrightarrow>
      mutated song g
      \<and> NotesHit g + NotesMissed g \<le> TotalNotes g \<and> Combo g \<le> MaxCombo g)"
proof -
  have inv: "NotesHit h + NotesMissed h \<le> TotalNotes h \<and> Combo h \<le> MaxCombo h"
    if "mutated song h" for h
    using mutated_invariant [OF that] hit_count_le [of h] by simp
  have "mutated song g" if "session parse nf cs (NewGameState song) = Inr g"
    using that mutated.fresh by (rule session_mutated)
  with inv show ?thesis by blast
qed

theorem score_invariants_witness:
  "mutated (example_song [example_note 2 3 0])
     (RegisterHit (NewGameState (example_song [example_note 2 3 0])) 0 HitPerfect 600 200)
   \<and> NotesHit (RegisterHit (NewGameState (example_song [example_note 2 3 0])) 0 HitPerfect 600 200) = 1
   \<and> TotalNotes (RegisterHit (NewGameState (example_song [example_note 2 3 0])) 0 HitPerfect 600 200) = 1
   \<and> session (\<lambda>s. TuningStandard) buildNoteFrequencies
        [CallStart, CallGameStateUpdate 2.35 (\<lambda>f. True), CallUpdate]
        (NewGameState (example_song [example_note 2 3 0]))
       = Inr (HitDetector_Update (GameState_Update 2.35 (\<lambda>f. True)
           (Start (NewGameState (example_song [example_note 2 3 0])))))
   \<and> NotesMissed (HitDetector_Update (GameState_Update 2.35 (\<lambda>f. True)
           (Start (NewGameState (example_song [example_note 2 3 0]))))) = 1
   \<and> NotesHit (HitDetector_Update (GameState_Update 2.35 (\<lambda>f. True)
           (Start (NewGameState (example_song [example_note 2 3 0])))))
       + NotesMissed (HitDetector_Update (GameState_Update 2.35 (\<lambda>f. True)
           (Start (NewGameState (example_song [example_note 2 3 0])))))
       \<le> TotalNotes (HitDetector_Update (GameState_Update 2.35 (\<lambda>f. True)
           (Start (NewGameState (example_song [example_note 2 3 0])))))
   \<and> Combo (HitDetector_Update (GameState_Update 2.35 (\<lambda>f. True)
           (Start (NewGameState (example_song [example_note 2 3 0])))))
       \<le> MaxCombo (HitDetector_Update (GameState_Update 2.35 (\<lambda>f. True)
           (Start (NewGameState (example_song [example_note 2 3 0])))))"
proof -
  let ?song = "example_song [example_note 2 3 0]"
  let ?g0 = "NewGameState ?song"
  let ?G = "HitDetector_Update (GameState_Update 2.35 (\<lambda>f. True) (Start ?g0))"
  have n0: "Notes (Song ?g0) = [example_note 2 3 0]"
    by (simp add: NewGameState_def CalculateDuration_def example_song_def Let_def)
  have m: "mutated ?song (RegisterHit ?g0 0 HitPerfect 600 200)"
    by (rule mutated.register [OF mutated.fresh]) (simp_all add: n0 example_note_simps)
  have c: "NotesHit (RegisterHit ?g0 0 HitPerfect 600 200) = 1"
    "TotalNotes (RegisterHit ?g0 0 HitPerfect 600 200) = 1"
    by (simp_all add: RegisterHit_NotesHit RegisterHit_frame NewGameState_def CalculateDuration_def
        example_song_def Let_def)
  have run: "session (\<lambda>s. TuningStandard) buildNoteFrequencies
        [CallStart, CallGameStateUpdate 2.35 (\<lambda>f. True), CallUpdate] ?g0 = Inr ?G"
    by simp
  have missed: "NotesMissed ?G = 1"
    by (simp add: HitDetector_Update_def GameState_Update_def Start_def NewGameState_def
        CalculateDuration_def example_song_def example_note_def Let_def MissWindow_def
        RegisterHit_NotesMissed)
  from score_invariants [of ?song "RegisterHit ?g0 0 HitPerfect 600 200"
      "\<lambda>s. TuningStandard" buildNoteFrequencies "[CallStart, CallGameStateUpdate 2.35 (\<lambda>f. True), CallUpdate]"]
    score_invariants [of ?song ?G
      "\<lambda>s. TuningStandard" buildNoteFrequencies "[CallStart, CallGameStateUpdate 2.35 (\<lambda>f. True), CallUpdate]"]
    m c run missed
  show ?thesis by simp
qed

section \<open>Notes too far in the future\<close>

lemma CheckHit_loop_append_inert:
  assumes "\<forall>j\<in>set ys. j \<notin> set xs
      \<and> (Hit (Notes (Song g) ! j) \<or> Time (Notes (Song g) ! j) - t > MissWindow)"
  shows "CheckHit_loop parse nf pitch px t (xs @ ys) g = CheckHit_loop parse nf pitch px t xs g"
  using assms
proof (induction xs arbitrary: g)
  case Nil
  then show ?case by (simp add: CheckHit_loop_inert)
next
  case (Cons i xs)
  let ?n = "Notes (Song g) ! i"
  let ?g1 = "RegisterHit g i HitMiss px (real_of_int (80 + String ?n * 40))"
  from Cons.prems have same: "\<forall>j\<in>set ys. j \<notin> set xs
      \<and> (Hit (Notes (Song g) ! j) \<or> Time (Notes (Song g) ! j) - t > MissWindow)"
    by simp
  have "\<forall>j\<in>set ys. j \<notin> set xs
      \<and> (Hit (Notes (Song ?g1) ! j) \<or> Time (Notes (Song ?g1) ! j) - t > MissWindow)"
  proof
    fix j assume j: "j \<in> set ys"
    with Cons.prems have "j \<noteq> i" by auto
    then have "Notes (Song ?g1) ! j = Notes (Song g) ! j" by (simp add: RegisterHit_other)
    with same j show "j \<notin> set xs
      \<and> (Hit (Notes (Song ?g1) ! j) \<or> Time (Notes (Song ?g1) ! j) - t > MissWindow)"
      by simp
  qed
  from Cons.IH [OF same] Cons.IH [OF this] show ?case
    by (simp add: Let_def split: sum.splits)
qed

text \<open>
  Claim C9. When the notes are in non-decreasing time order and the scan of \<^verbatim>\<open>CheckHit\<close>
  meets a note that is not yet hit and lies more than 0.300 s in the future, the scan is
  over for that frame: the invocation does exactly what the scan of the notes before that
  one does, and no note from that one on is judged or marked missed. (The code goes on to
  the next note; on an ordered chart every later note is skipped for the same reason.)
\<close>

theorem CheckHit_stops_at_future_note:
  assumes "sorted_wrt (\<lambda>a b. Time a \<le> Time b) (Notes (Song g))"
    and "i < length (Notes (Song g))"
    and "\<not> Hit (Notes (Song g) ! i)"
    and "Time (Notes (Song g) ! i) - CurrentTime g > 0.300"
  shows "CheckHit parse nf pitch playLineX g =
           (if IsValid pitch
            then CheckHit_loop parse nf pitch playLineX (CurrentTime g) [0..<i] g
            else Inr g)
       \<and> (\<forall>g'. CheckHit parse nf pitch playLineX g = Inr g' \<longrightarrow>
             (\<forall>j. i \<le> j \<and> j < length (Notes (Song g)) \<longrightarrow>
                  Notes (Song g') ! j = Notes (Song g) ! j))"
proof -
  let ?n = "length (Notes (Song g))"
  let ?t = "CurrentTime g"
  have later: "Time (Notes (Song g) ! j) - ?t > MissWindow" if "i \<le> j" "j < ?n" for j
  proof (cases "i = j")
    case True
    with assms(4) show ?thesis by (simp add: MissWindow_def)
  next
    case False
    with that have "i < j" by simp
    from sorted_wrt_nth_less [OF assms(1) this that(2)] assms(4) show ?thesis
      by (simp add: MissWindow_def)
  qed
  have split: "[0..<?n] = [0..<i] @ [i..<?n]"
    using assms(2) by (metis le_add_diff_inverse less_imp_le_nat upt_add_eq_append zero_le)
  have "\<forall>j\<in>set [i..<?n]. j \<notin> set [0..<i]
      \<and> (Hit (Notes (Song g) ! j) \<or> Time (Notes (Song g) ! j) - ?t > MissWindow)"
    using later by simp
  from CheckHit_loop_append_inert [OF this]
  have trunc: "CheckHit_loop parse nf pitch playLineX ?t [0..<?n] g
      = CheckHit_loop parse nf pitch playLineX ?t [0..<i] g"
    by (simp only: split [symmetric])
  then have first: "CheckHit parse nf pitch playLineX g =
           (if IsValid pitch
            then CheckHit_loop parse nf pitch playLineX ?t [0..<i] g
            else Inr g)"
    by (simp add: CheckHit_def Let_def)
  have "Notes (Song g') ! j = Notes (Song g) ! j"
    if "CheckHit parse nf pitch playLineX g = Inr g'" "i \<le> j" for g' j
  proof (cases "IsValid pitch")
    case True
    with that(1) first have "CheckHit_loop parse nf pitch playLineX ?t [0..<i] g = Inr g'" by simp
    from CheckHit_loop_other [OF this] that(2) show ?thesis by simp
  next
    case False
    with that(1) first show ?thesis by simp
  qed
  with first show ?thesis by blast
qed

theorem CheckHit_stops_at_future_note_witness:
  "sorted_wrt (\<lambda>a b. Time a \<le> Time b)
     (Notes (Song (example_state
        [(example_note 1 3 0)\<lparr>Hit := True, HitQuality := HitGood\<rparr>, example_note 3 3 0, example_note 4 3 0] 2 0)))
   \<and> \<not> Hit (Notes (Song (example_state
        [(example_note 1 3 0)\<lparr>Hit := True, HitQuality := HitGood\<rparr>, example_note 3 3 0, example_note 4 3 0] 2 0)) ! Suc 0)
   \<and> Time (Notes (Song (example_state
        [(example_note 1 3 0)\<lparr>Hit := True, HitQuality := HitGood\<rparr>, example_note 3 3 0, example_note 4 3 0] 2 0)) ! Suc 0)
       - CurrentTime (example_state
        [(example_note 1 3 0)\<lparr>Hit := True, HitQuality := HitGood\<rparr>, example_note 3 3 0, example_note 4 3 0] 2 0) > 0.300
   \<and> notesMatch (\<lambda>s. TuningStandard) buildNoteFrequencies
        (example_state
          [(example_note 1 3 0)\<lparr>Hit := True, HitQuality := HitGood\<rparr>, example_note 3 3 0, example_note 4 3 0] 2 0)
        (example_pitch frequency_E1 0.9) (example_note 3 3 0) = Inr True
   \<and> CheckHit (\<lambda>s. TuningStandard) buildNoteFrequencies (example_pitch frequency_E1 0.9) 600
        (example_state
          [(example_note 1 3 0)\<lparr>Hit := True, HitQuality := HitGood\<rparr>, example_note 3 3 0, example_note 4 3 0] 2 0)
       = Inr (example_state
          [(example_note 1 3 0)\<lparr>Hit := True, HitQuality := HitGood\<rparr>, example_note 3 3 0, example_note 4 3 0] 2 0)"
proof -
  let ?g = "example_state
    [(example_note 1 3 0)\<lparr>Hit := True, HitQuality := HitGood\<rparr>, example_note 3 3 0, example_note 4 3 0] 2 0"
  let ?p = "example_pitch frequency_E1 0.9"
  have s: "sorted_wrt (\<lambda>a b. Time a \<le> Time b) (Notes (Song ?g))"
    by (simp add: example_state_simps example_note_simps)
  have i: "Suc 0 < length (Notes (Song ?g))"
    by (simp add: example_state_simps)
  have u: "\<not> Hit (Notes (Song ?g) ! Suc 0)"
    by (simp add: example_state_simps example_note_simps)
  have f: "Time (Notes (Song ?g) ! Suc 0) - CurrentTime ?g > 0.300"
    by (simp add: example_state_simps example_note_simps)
  have m: "notesMatch (\<lambda>s. TuningStandard) buildNoteFrequencies ?g ?p (example_note 3 3 0) = Inr True"
    by (rule example_match)
  have v: "IsValid ?p"
    by (simp add: example_pitch_simps)
  have h: "Hit (Notes (Song ?g) ! 0)"
    by (simp add: example_state_simps)
  have "CheckHit_loop (\<lambda>s. TuningStandard) buildNoteFrequencies ?p 600 (CurrentTime ?g) [0] ?g = Inr ?g"
    unfolding CheckHit_loop.simps Let_def using h by simp
  then have first: "CheckHit_loop (\<lambda>s. TuningStandard) buildNoteFrequencies ?p 600 (CurrentTime ?g) [0..<Suc 0] ?g
      = Inr ?g"
    by simp
  have "CheckHit (\<lambda>s. TuningStandard) buildNoteFrequencies ?p 600 ?g
      = (if IsValid ?p
         then CheckHit_loop (\<lambda>s. TuningStandard) buildNoteFrequencies ?p 600 (CurrentTime ?g) [0..<Suc 0] ?g
         else Inr ?g)"
    using CheckHit_stops_at_future_note [OF s i u f, of "\<lambda>s. TuningStandard" buildNoteFrequencies ?p 600]
    by (rule conjunct1)
  then have c: "CheckHit (\<lambda>s. TuningStandard) buildNoteFrequencies ?p 600 ?g = Inr ?g"
    unfolding first by simp
  show ?thesis
    by (intro conjI s u f m c)
qed

section \<open>A match outside the scoring windows\<close>

lemma example_mismatch:
  "notesMatch parse buildNoteFrequencies (example_state ns t c)
     (example_pitch frequency_E1 cf) (example_note u 1 0) = Inr False"
proof -
  have n: "NoteAt parse (Song (example_state ns t c)) (example_note u 1 0) = Inr ''D''"
    and k: "OctaveAt parse (Song (example_state ns t c)) (example_note u 1 0) = Inr 2"
    by (simp_all add: NoteAt_def OctaveAt_def NoteWithTuning_def OctaveWithTuning_def GetTuning_def
        example_state_def example_song_def example_note_def NewGameState_def CalculateDuration_def
        TuningStandard_def Let_def Semitone_def noteMap_def signed_divide_int_def)
  have "noteMap ''D'' = Some 2" by (simp add: noteMap_def)
  from table_lookup [OF this, of 2]
  have look: "buildNoteFrequencies (''D'' @ string_of_rune (rune (48 + 2))) = Some (440 * 2 powr (- 31 / 12))"
    by simp
  have "(2::real) powr (- 41 / 12) / 2 powr (- 31 / 12) = 2 powr (- 41 / 12 - (- 31 / 12))"
    by (rule powr_diff [symmetric])
  then have ratio: "frequency_E1 / (440 * 2 powr (- 31 / 12)) = 2 powr (- 5 / 6)"
    by (simp add: frequency_E1_def)
  have cents: "1200 * log 2 (frequency_E1 / (440 * 2 powr (- 31 / 12))) = - 1000"
    unfolding ratio by simp
  show ?thesis
    unfolding notesMatch_def n k Let_def sum.case look option.case example_pitch_simps cents
    by simp
qed

lemma CheckHit_loop_no_match:
  assumes "distinct xs"
    and "\<forall>j\<in>set xs. Hit (Notes (Song g) ! j)
          \<or> Time (Notes (Song g) ! j) - t > MissWindow
          \<or> Time (Notes (Song g) ! j) - t < - MissWindow
          \<or> notesMatch parse nf g pitch (Notes (Song g) ! j) = Inr False"
  shows "\<exists>g1. CheckHit_loop parse nf pitch px t xs g = Inr g1
          \<and> CheckHit_loop parse nf pitch px t (xs @ ys) g = CheckHit_loop parse nf pitch px t ys g1
          \<and> Score g1 = Score g \<and> NotesHit g1 = NotesHit g \<and> CurrentTime g1 = CurrentTime g
          \<and> (\<forall>note. notesMatch parse nf g1 pitch note = notesMatch parse nf g pitch note)
          \<and> (\<forall>k. k \<notin> set xs \<longrightarrow> Notes (Song g1) ! k = Notes (Song g) ! k)"
  using assms
proof (induction xs arbitrary: g)
  case Nil
  then show ?case by simp
next
  case (Cons i xs)
  let ?n = "Notes (Song g) ! i"
  let ?g1 = "RegisterHit g i HitMiss px (real_of_int (80 + String ?n * 40))"
  from Cons.prems(1) have d: "distinct xs" and ni: "i \<notin> set xs" by simp_all
  from Cons.prems(2) have rest: "\<forall>j\<in>set xs. Hit (Notes (Song g) ! j)
          \<or> Time (Notes (Song g) ! j) - t > MissWindow
          \<or> Time (Notes (Song g) ! j) - t < - MissWindow
          \<or> notesMatch parse nf g pitch (Notes (Song g) ! j) = Inr False"
    and here: "Hit ?n \<or> Time ?n - t > MissWindow \<or> Time ?n - t < - MissWindow
          \<or> notesMatch parse nf g pitch ?n = Inr False"
    by simp_all
  show ?case
  proof (cases "\<not> Hit ?n \<and> \<not> Time ?n - t > MissWindow \<and> Time ?n - t < - MissWindow")
    case True
    then have step: "CheckHit_loop parse nf pitch px t ((i # xs) @ zs) g
        = CheckHit_loop parse nf pitch px t (xs @ zs) ?g1" for zs
      by (simp add: Let_def)
    have rest1: "\<forall>j\<in>set xs. Hit (Notes (Song ?g1) ! j)
          \<or> Time (Notes (Song ?g1) ! j) - t > MissWindow
          \<or> Time (Notes (Song ?g1) ! j) - t < - MissWindow
          \<or> notesMatch parse nf ?g1 pitch (Notes (Song ?g1) ! j) = Inr False"
    proof
      fix j assume j: "j \<in> set xs"
      with ni have "j \<noteq> i" by auto
      then have "Notes (Song ?g1) ! j = Notes (Song g) ! j" by (simp add: RegisterHit_other)
      with rest j show "Hit (Notes (Song ?g1) ! j)
          \<or> Time (Notes (Song ?g1) ! j) - t > MissWindow
          \<or> Time (Notes (Song ?g1) ! j) - t < - MissWindow
          \<or> notesMatch parse nf ?g1 pitch (Notes (Song ?g1) ! j) = Inr False"
        by (simp add: notesMatch_RegisterHit)
    qed
    from Cons.IH [OF d rest1] obtain g2
      where g2: "CheckHit_loop parse nf pitch px t xs ?g1 = Inr g2"
        "CheckHit_loop parse nf pitch px t (xs @ ys) ?g1 = CheckHit_loop parse nf pitch px t ys g2"
        "Score g2 = Score ?g1" "NotesHit g2 = NotesHit ?g1" "CurrentTime g2 = CurrentTime ?g1"
        "\<forall>note. notesMatch parse nf g2 pitch note = notesMatch parse nf ?g1 pitch note"
        "\<forall>k. k \<notin> set xs \<longrightarrow> Notes (Song g2) ! k = Notes (Song ?g1) ! k"
      by blast
    have "CheckHit_loop parse nf pitch px t (i # xs) g = Inr g2"
      using step [of "[]"] g2(1) by simp
    moreover have "CheckHit_loop parse nf pitch px t ((i # xs) @ ys) g
        = CheckHit_loop parse nf pitch px t ys g2"
      using step [of ys] g2(2) by simp
    moreover have "Score g2 = Score g" "NotesHit g2 = NotesHit g" "CurrentTime g2 = CurrentTime g"
      using g2(3-5) by (simp_all add: RegisterHit_Score RegisterHit_NotesHit RegisterHit_frame)
    moreover have "\<forall>note. notesMatch parse nf g2 pitch note = notesMatch parse nf g pitch note"
      using g2(6) by (simp add: notesMatch_RegisterHit)
    moreover have "\<forall>k. k \<notin> set (i # xs) \<longrightarrow> Notes (Song g2) ! k = Notes (Song g) ! k"
      using g2(7) by (simp add: RegisterHit_other)
    ultimately show ?thesis by blast
  next
    case False
    with here have step: "CheckHit_loop parse nf pitch px t ((i # xs) @ zs) g
        = CheckHit_loop parse nf pitch px t (xs @ zs) g" for zs
      by (auto simp: Let_def)
    from Cons.IH [OF d rest] obtain g2
      where g2: "CheckHit_loop parse nf pitch px t xs g = Inr g2"
        "CheckHit_loop parse nf pitch px t (xs @ ys) g = CheckHit_loop parse nf pitch px t ys g2"
        "Score g2 = Score g" "NotesHit g2 = NotesHit g" "CurrentTime g2 = CurrentTime g"
        "\<forall>note. notesMatch parse nf g2 pitch note = notesMatch parse nf g pitch note"
        "\<forall>k. k \<notin> set xs \<longrightarrow> Notes (Song g2) ! k = Notes (Song g) ! k"
      by blast
    have "CheckHit_loop parse nf pitch px t (i # xs) g = Inr g2"
      using step [of "[]"] g2(1) by simp
    moreover have "CheckHit_loop parse nf pitch px t ((i # xs) @ ys) g
        = CheckHit_loop parse nf pitch px t ys g2"
      using step [of ys] g2(2) by simp
    moreover have "\<forall>k. k \<notin> set (i # xs) \<longrightarrow> Notes (Song g2) ! k = Notes (Song g) ! k"
      using g2(7) by simp
    ultimately show ?thesis using g2(3-6) by blast
  qed
qed

text \<open>
  Claim C10, as amended. Let the latest sample be valid, let it match the pitch of a note
  that is not yet hit and whose absolute offset \<open>\<bar>note.time - currentTime\<bar>\<close> lies in
  \<open>(0.150, 0.300]\<close>, and let no unhit note before it within the miss window match the
  sample, so that the scan's first match falls on this note. Then this invocation of
  \<^verbatim>\<open>CheckHit\<close> registers that note at once with quality Miss (hit set, combo reset to 0,
  one more missed note, no points) and stops: the result is \<^verbatim>\<open>RegisterHit\<close> with quality
  Miss on the state \<open>g1\<close> that the scan of the earlier notes leaves, and the notes after it
  are untouched.
\<close>

theorem late_match_registers_miss:
  assumes "IsValid pitch"
    and "i < length (Notes (Song g))"
    and "\<not> Hit (Notes (Song g) ! i)"
    and "0.150 < \<bar>Time (Notes (Song g) ! i) - CurrentTime g\<bar>"
    and "\<bar>Time (Notes (Song g) ! i) - CurrentTime g\<bar> \<le> 0.300"
    and "notesMatch parse nf g pitch (Notes (Song g) ! i) = Inr True"
    and "\<forall>j<i. \<not> Hit (Notes (Song g) ! j) \<and> \<bar>Time (Notes (Song g) ! j) - CurrentTime g\<bar> \<le> 0.300
           \<longrightarrow> notesMatch parse nf g pitch (Notes (Song g) ! j) = Inr False"
  shows "\<exists>g1 g'. CheckHit_loop parse nf pitch playLineX (CurrentTime g) [0..<i] g = Inr g1
          \<and> g' = RegisterHit g1 i HitMiss playLineX (real_of_int (80 + String (Notes (Song g) ! i) * 40))
          \<and> CheckHit parse nf pitch playLineX g = Inr g'
          \<and> Hit (Notes (Song g') ! i) \<and> HitQuality (Notes (Song g') ! i) = HitMiss
          \<and> Combo g' = 0 \<and> NotesMissed g' = NotesMissed g1 + 1
          \<and> Score g' = Score g \<and> NotesHit g' = NotesHit g
          \<and> (\<forall>j. i < j \<longrightarrow> Notes (Song g') ! j = Notes (Song g) ! j)"
proof -
  let ?len = "length (Notes (Song g))"
  let ?t = "CurrentTime g"
  let ?n = "Notes (Song g) ! i"
  let ?y = "real_of_int (80 + String ?n * 40)"
  have w: "MissWindow = 0.300" "OKWindow = 0.150" by (simp_all add: MissWindow_def OKWindow_def)
  have split: "[0..<?len] = [0..<i] @ i # [Suc i..<?len]"
    using assms(2) by (metis le_add_diff_inverse less_imp_le_nat upt_add_eq_append upt_conv_Cons zero_le)
  have before: "\<forall>j\<in>set [0..<i]. Hit (Notes (Song g) ! j)
          \<or> Time (Notes (Song g) ! j) - ?t > MissWindow
          \<or> Time (Notes (Song g) ! j) - ?t < - MissWindow
          \<or> notesMatch parse nf g pitch (Notes (Song g) ! j) = Inr False"
  proof
    fix j assume "j \<in> set [0..<i]"
    then have "j < i" by simp
    show "Hit (Notes (Song g) ! j)
          \<or> Time (Notes (Song g) ! j) - ?t > MissWindow
          \<or> Time (Notes (Song g) ! j) - ?t < - MissWindow
          \<or> notesMatch parse nf g pitch (Notes (Song g) ! j) = Inr False"
    proof (cases "\<bar>Time (Notes (Song g) ! j) - ?t\<bar> \<le> 0.300")
      case True
      with assms(7) \<open>j < i\<close> show ?thesis by blast
    next
      case False
      then have "Time (Notes (Song g) ! j) - ?t > 0.300 \<or> Time (Notes (Song g) ! j) - ?t < - 0.300"
        by linarith
      then show ?thesis unfolding w by blast
    qed
  qed
  from CheckHit_loop_no_match [OF distinct_upt before,
      where px = playLineX and ys = "i # [Suc i..<?len]"]
  obtain g1 where g1: "CheckHit_loop parse nf pitch playLineX ?t [0..<i] g = Inr g1"
    "CheckHit_loop parse nf pitch playLineX ?t ([0..<i] @ i # [Suc i..<?len]) g
       = CheckHit_loop parse nf pitch playLineX ?t (i # [Suc i..<?len]) g1"
    "Score g1 = Score g" "NotesHit g1 = NotesHit g" "CurrentTime g1 = CurrentTime g"
    "\<forall>note. notesMatch parse nf g1 pitch note = notesMatch parse nf g pitch note"
    "\<forall>k. k \<notin> set [0..<i] \<longrightarrow> Notes (Song g1) ! k = Notes (Song g) ! k"
    by blast
  let ?g' = "RegisterHit g1 i HitMiss playLineX ?y"
  from g1(7) have same: "Notes (Song g1) ! i = ?n" by simp
  from CheckHit_loop_frame [OF g1(1)] assms(2) have len: "i < length (Notes (Song g1))" by simp
  have q: "getHitQuality \<bar>Time ?n - ?t\<bar> = HitMiss"
    using assms(4) by (simp add: getHitQuality_def PerfectWindow_def GoodWindow_def OKWindow_def)
  have win: "\<not> Time ?n - ?t > MissWindow" "\<not> Time ?n - ?t < - MissWindow"
    using assms(5) unfolding w by linarith+
  have "CheckHit_loop parse nf pitch playLineX ?t (i # [Suc i..<?len]) g1 = Inr ?g'"
    using assms(3,6) g1(6) win q by (simp add: same Let_def)
  with g1(2) have "CheckHit_loop parse nf pitch playLineX ?t [0..<?len] g = Inr ?g'"
    by (simp only: split)
  with assms(1) have run: "CheckHit parse nf pitch playLineX g = Inr ?g'"
    by (simp add: CheckHit_def Let_def)
  have after: "Notes (Song ?g') ! j = Notes (Song g) ! j" if "i < j" for j
    using that g1(7) by (simp add: RegisterHit_other)
  have "Hit (Notes (Song ?g') ! i)" "HitQuality (Notes (Song ?g') ! i) = HitMiss"
    using len by (simp_all add: RegisterHit_same)
  moreover have "Combo ?g' = 0" "NotesMissed ?g' = NotesMissed g1 + 1"
    "Score ?g' = Score g" "NotesHit ?g' = NotesHit g"
    using g1(3,4) by (simp_all add: RegisterHit_Combo RegisterHit_NotesMissed RegisterHit_Score
        RegisterHit_NotesHit)
  ultimately show ?thesis using g1(1) run after by blast
qed

theorem late_match_registers_miss_witness:
  "IsValid (example_pitch frequency_E1 0.9)
   \<and> \<not> Hit (Notes (Song (example_state
          [example_note 1 3 0, example_note 2 1 0, example_note 2.2 3 0] 2 7)) ! 2)
   \<and> 0.150 < \<bar>Time (Notes (Song (example_state
          [example_note 1 3 0, example_note 2 1 0, example_note 2.2 3 0] 2 7)) ! 2)
        - CurrentTime (example_state [example_note 1 3 0, example_note 2 1 0, example_note 2.2 3 0] 2 7)\<bar>
   \<and> \<bar>Time (Notes (Song (example_state
          [example_note 1 3 0, example_note 2 1 0, example_note 2.2 3 0] 2 7)) ! 2)
        - CurrentTime (example_state [example_note 1 3 0, example_note 2 1 0, example_note 2.2 3 0] 2 7)\<bar> \<le> 0.300
   \<and> \<not> Hit (Notes (Song (example_state
          [example_note 1 3 0, example_note 2 1 0, example_note 2.2 3 0] 2 7)) ! Suc 0)
   \<and> \<bar>Time (Notes (Song (example_state
          [example_note 1 3 0, example_note 2 1 0, example_note 2.2 3 0] 2 7)) ! Suc 0)
        - CurrentTime (example_state [example_note 1 3 0, example_note 2 1 0, example_note 2.2 3 0] 2 7)\<bar> \<le> 0.300
   \<and> notesMatch (\<lambda>s. TuningStandard) buildNoteFrequencies
        (example_state [example_note 1 3 0, example_note 2 1 0, example_note 2.2 3 0] 2 7)
        (example_pitch frequency_E1 0.9) (example_note 2 1 0) = Inr False
   \<and> CheckHit (\<lambda>s. TuningStandard) buildNoteFrequencies (example_pitch frequency_E1 0.9) 600
        (example_state [example_note 1 3 0, example_note 2 1 0, example_note 2.2 3 0] 2 7)
       = Inr (RegisterHit
           (RegisterHit (example_state [example_note 1 3 0, example_note 2 1 0, example_note 2.2 3 0] 2 7)
              0 HitMiss 600 200)
           2 HitMiss 600 200)
   \<and> Combo (example_state [example_note 1 3 0, example_note 2 1 0, example_note 2.2 3 0] 2 7) = 7
   \<and> Combo (RegisterHit
           (RegisterHit (example_state [example_note 1 3 0, example_note 2 1 0, example_note 2.2 3 0] 2 7)
              0 HitMiss 600 200)
           2 HitMiss 600 200) = 0
   \<and> NotesMissed (RegisterHit
           (RegisterHit (example_state [example_note 1 3 0, example_note 2 1 0, example_note 2.2 3 0] 2 7)
              0 HitMiss 600 200)
           2 HitMiss 600 200) = 2
   \<and> Score (RegisterHit
           (RegisterHit (example_state [example_note 1 3 0, example_note 2 1 0, example_note 2.2 3 0] 2 7)
              0 HitMiss 600 200)
           2 HitMiss 600 200) = 0"
proof -
  let ?g = "example_state [example_note 1 3 0, example_note 2 1 0, example_note 2.2 3 0] 2 7"
  let ?p = "example_pitch frequency_E1 0.9"
  let ?g1 = "RegisterHit ?g 0 HitMiss 600 200"
  have v: "IsValid ?p"
    by (simp add: example_pitch_simps)
  have i: "2 < length (Notes (Song ?g))"
    by (simp add: example_state_simps)
  have u: "\<not> Hit (Notes (Song ?g) ! 2)"
    by (simp add: example_state_simps example_note_simps)
  have lo: "0.150 < \<bar>Time (Notes (Song ?g) ! 2) - CurrentTime ?g\<bar>"
    by (simp add: example_state_simps example_note_simps)
  have hi: "\<bar>Time (Notes (Song ?g) ! 2) - CurrentTime ?g\<bar> \<le> 0.300"
    by (simp add: example_state_simps example_note_simps)
  have u1: "\<not> Hit (Notes (Song ?g) ! Suc 0)"
    by (simp add: example_state_simps example_note_simps)
  have in1: "\<bar>Time (Notes (Song ?g) ! Suc 0) - CurrentTime ?g\<bar> \<le> 0.300"
    by (simp add: example_state_simps example_note_simps)
  have m: "notesMatch (\<lambda>s. TuningStandard) buildNoteFrequencies ?g ?p (Notes (Song ?g) ! 2) = Inr True"
    by (simp add: example_state_simps example_match)
  have mm: "notesMatch (\<lambda>s. TuningStandard) buildNoteFrequencies ?g ?p (example_note 2 1 0) = Inr False"
    by (rule example_mismatch)
  have none: "\<forall>j<2. \<not> Hit (Notes (Song ?g) ! j) \<and> \<bar>Time (Notes (Song ?g) ! j) - CurrentTime ?g\<bar> \<le> 0.300
      \<longrightarrow> notesMatch (\<lambda>s. TuningStandard) buildNoteFrequencies ?g ?p (Notes (Song ?g) ! j) = Inr False"
  proof (intro allI impI)
    fix j :: nat
    assume j: "j < 2"
      and a: "\<not> Hit (Notes (Song ?g) ! j) \<and> \<bar>Time (Notes (Song ?g) ! j) - CurrentTime ?g\<bar> \<le> 0.300"
    from j consider "j = 0" | "j = Suc 0" by linarith
    then show "notesMatch (\<lambda>s. TuningStandard) buildNoteFrequencies ?g ?p (Notes (Song ?g) ! j) = Inr False"
    proof cases
      case 1
      with a show ?thesis by (simp add: example_state_simps example_note_simps)
    next
      case 2
      then show ?thesis by (simp add: example_state_simps example_mismatch)
    qed
  qed
  have "CheckHit_loop (\<lambda>s. TuningStandard) buildNoteFrequencies ?p 600 2 [Suc 0] ?g1 = Inr ?g1"
    by (simp add: Let_def RegisterHit_other example_state_simps example_note_simps MissWindow_def
        notesMatch_RegisterHit example_mismatch)
  then have "CheckHit_loop (\<lambda>s. TuningStandard) buildNoteFrequencies ?p 600 2 [0, Suc 0] ?g = Inr ?g1"
    by (simp add: Let_def example_state_simps example_note_simps MissWindow_def)
  moreover have "[0..<2] = [0, Suc 0]"
    by (simp add: numeral_2_eq_2)
  moreover have "CurrentTime ?g = 2"
    by (simp add: example_state_simps)
  ultimately have pre: "CheckHit_loop (\<lambda>s. TuningStandard) buildNoteFrequencies ?p 600 (CurrentTime ?g) [0..<2] ?g
      = Inr ?g1"
    by (simp only:)
  from late_match_registers_miss [OF v i u lo hi m none, of 600]
  obtain g1 g' where r:
    "CheckHit_loop (\<lambda>s. TuningStandard) buildNoteFrequencies ?p 600 (CurrentTime ?g) [0..<2] ?g = Inr g1"
    "g' = RegisterHit g1 2 HitMiss 600 (real_of_int (80 + String (Notes (Song ?g) ! 2) * 40))"
    "CheckHit (\<lambda>s. TuningStandard) buildNoteFrequencies ?p 600 ?g = Inr g'"
    "Combo g' = 0" "NotesMissed g' = NotesMissed g1 + 1" "Score g' = Score ?g"
    by blast
  from r(1) pre have g1: "g1 = ?g1" by simp
  have y: "real_of_int (80 + String (Notes (Song ?g) ! 2) * 40) = 200"
    by (simp add: example_state_simps example_note_simps)
  have g': "g' = RegisterHit ?g1 2 HitMiss 600 200"
    using r(2) unfolding g1 y .
  have run: "CheckHit (\<lambda>s. TuningStandard) buildNoteFrequencies ?p 600 ?g
      = Inr (RegisterHit ?g1 2 HitMiss 600 200)"
    using r(3) unfolding g' .
  have c0: "Combo ?g = 7"
    by (simp add: example_state_simps)
  have c: "Combo (RegisterHit ?g1 2 HitMiss 600 200) = 0"
    using r(4) unfolding g' .
  have "NotesMissed ?g1 = 1"
    by (simp add: RegisterHit_NotesMissed example_state_simps)
  with r(5) have nm: "NotesMissed (RegisterHit ?g1 2 HitMiss 600 200) = 2"
    unfolding g' g1 by simp
  have sc: "Score (RegisterHit ?g1 2 HitMiss 600 200) = 0"
    using r(6) unfolding g' by (simp add: example_state_simps)
  show ?thesis
    by (intro conjI v u lo hi u1 in1 mm run c0 c nm sc)
qed

text \<open>
  The claim as first worded fails when an earlier note matches as well: \<^verbatim>\<open>CheckHit\<close>
  returns at its first match. With two notes of the same pitch at 2.0 s and 2.2 s and the
  clock at 2.0 s, the second note is unhit, matches the sample and lies 0.2 s away, yet the
  invocation registers the first note as Perfect and leaves the second one unjudged: no
  miss is counted and the combo rises to 1.
\<close>

theorem late_match_counterexample:
  "IsValid (example_pitch frequency_E1 0.9)
   \<and> \<not> Hit (Notes (Song (example_state [example_note 2 3 0, example_note 2.2 3 0] 2 0)) ! Suc 0)
   \<and> 0.150 < \<bar>Time (Notes (Song (example_state [example_note 2 3 0, example_note 2.2 3 0] 2 0)) ! Suc 0)
               - CurrentTime (example_state [example_note 2 3 0, example_note 2.2 3 0] 2 0)\<bar>
   \<and> \<bar>Time (Notes (Song (example_state [example_note 2 3 0, example_note 2.2 3 0] 2 0)) ! Suc 0)
               - CurrentTime (example_state [example_note 2 3 0, example_note 2.2 3 0] 2 0)\<bar> \<le> 0.300
   \<and> notesMatch (\<lambda>s. TuningStandard) buildNoteFrequencies
        (example_state [example_note 2 3 0, example_note 2.2 3 0] 2 0) (example_pitch frequency_E1 0.9)
        (Notes (Song (example_state [example_note 2 3 0, example_note 2.2 3 0] 2 0)) ! Suc 0) = Inr True
   \<and> CheckHit (\<lambda>s. TuningStandard) buildNoteFrequencies (example_pitch frequency_E1 0.9) 600
        (example_state [example_note 2 3 0, example_note 2.2 3 0] 2 0)
       = Inr (RegisterHit (example_state [example_note 2 3 0, example_note 2.2 3 0] 2 0) 0 HitPerfect 600 200)
   \<and> \<not> Hit (Notes (Song (RegisterHit (example_state [example_note 2 3 0, example_note 2.2 3 0] 2 0)
          0 HitPerfect 600 200)) ! Suc 0)
   \<and> NotesMissed (RegisterHit (example_state [example_note 2 3 0, example_note 2.2 3 0] 2 0)
          0 HitPerfect 600 200) = 0
   \<and> Combo (RegisterHit (example_state [example_note 2 3 0, example_note 2.2 3 0] 2 0)
          0 HitPerfect 600 200) = 1"
proof -
  let ?g = "example_state [example_note 2 3 0, example_note 2.2 3 0] 2 0"
  let ?p = "example_pitch frequency_E1 0.9"
  let ?g' = "RegisterHit ?g 0 HitPerfect 600 200"
  have v: "IsValid ?p"
    by (simp add: example_pitch_simps)
  have u: "\<not> Hit (Notes (Song ?g) ! Suc 0)"
    by (simp add: example_state_simps example_note_simps)
  have lo: "0.150 < \<bar>Time (Notes (Song ?g) ! Suc 0) - CurrentTime ?g\<bar>"
    by (simp add: example_state_simps example_note_simps)
  have hi: "\<bar>Time (Notes (Song ?g) ! Suc 0) - CurrentTime ?g\<bar> \<le> 0.300"
    by (simp add: example_state_simps example_note_simps)
  have m: "notesMatch (\<lambda>s. TuningStandard) buildNoteFrequencies ?g ?p (Notes (Song ?g) ! Suc 0) = Inr True"
    by (simp add: example_state_simps example_match)
  have run: "CheckHit (\<lambda>s. TuningStandard) buildNoteFrequencies ?p 600 ?g = Inr ?g'"
    by (simp add: CheckHit_def Let_def example_state_simps example_note_simps example_pitch_simps
        example_match getHitQuality_def PerfectWindow_def MissWindow_def)
  have u': "\<not> Hit (Notes (Song ?g') ! Suc 0)"
    by (simp add: RegisterHit_other example_state_simps example_note_simps)
  have nm: "NotesMissed ?g' = 0"
    by (simp add: RegisterHit_NotesMissed example_state_simps)
  have c: "Combo ?g' = 1"
    by (simp add: RegisterHit_Combo example_state_simps)
  show ?thesis
    by (intro conjI v u lo hi m run u' nm c)
qed

end
